theory Spec2Isabelle
  imports Main
begin

section \<open>Strings, numbers and the token patterns\<close>

text \<open>
  JavaScript strings are modelled as \<^typ>\<open>string\<close>, read as the UTF-8 bytes of the text.
  Every pattern of the program is built from ASCII literals, \<^verbatim>\<open>\d\<close> and
  \<^verbatim>\<open>[^>]\<close>, and no byte of a multi-byte character is an ASCII byte, so
  matching bytes finds the same tokens as matching UTF-16 code units does.

  JavaScript numbers are modelled as \<^typ>\<open>int\<close>: ids, bounds and option values are
  integers in the range where Number is exact, and \<^verbatim>\<open>parseInt\<close> of a run of
  digits is the decimal value of the run.
\<close>

definition is_digit :: "char \<Rightarrow> bool" where
  "is_digit c = (c \<in> set ''0123456789'')"

definition digit_val :: "char \<Rightarrow> int" where
  "digit_val c = int (of_char c) - 48"

text \<open>\<^verbatim>\<open>parseInt(match[1])\<close>, on the digits that \<^verbatim>\<open>(\d+)\<close> captured.\<close>

definition parseInt :: "string \<Rightarrow> int" where
  "parseInt ds = foldl (\<lambda>n c. 10 * n + digit_val c) 0 ds"

text \<open>A literal piece of a pattern: the rest of the input after it, when the input starts with it.\<close>

fun match_literal :: "string \<Rightarrow> string \<Rightarrow> string option" where
  "match_literal [] s = Some s"
| "match_literal (p # ps) [] = None"
| "match_literal (p # ps) (c # cs) = (if p = c then match_literal ps cs else None)"

text \<open>
  \<^verbatim>\<open>/<stat:(\d+):value>/\<close> tried at the start of the input: the captured digits and
  the input after the match. \<^verbatim>\<open>\d+\<close> is greedy; giving digits back cannot help,
  because the character after a shorter run is a digit and the pattern wants a colon.
\<close>

definition match_stat_value :: "string \<Rightarrow> (string \<times> string) option" where
  "match_stat_value s =
     (case match_literal ''<stat:'' s of
        None \<Rightarrow> None
      | Some r1 \<Rightarrow>
          (let ds = takeWhile is_digit r1; r2 = dropWhile is_digit r1 in
           if ds = [] then None
           else (case match_literal '':value>'' r2 of
                   None \<Rightarrow> None
                 | Some r3 \<Rightarrow> Some (ds, r3))))"

lemma match_literal_append: "match_literal p s = Some r \<Longrightarrow> s = p @ r"
  by (induction p s rule: match_literal.induct) (auto split: if_splits)

lemma match_literal_length: "match_literal p s = Some r \<Longrightarrow> length r \<le> length s"
  by (drule match_literal_append) simp

lemma match_stat_value_shape:
  assumes "match_stat_value s = Some (ds, r)"
  shows "s = ''<stat:'' @ ds @ '':value>'' @ r" and "ds \<noteq> []" and "\<forall>c\<in>set ds. is_digit c"
proof -
  from assms obtain r1 where r1: "match_literal ''<stat:'' s = Some r1"
    unfolding match_stat_value_def by (auto split: option.splits)
  from assms r1 have ds: "ds = takeWhile is_digit r1" and ne: "ds \<noteq> []"
    and r2: "match_literal '':value>'' (dropWhile is_digit r1) = Some r"
    unfolding match_stat_value_def Let_def by (auto split: option.splits if_splits)
  have "r1 = takeWhile is_digit r1 @ dropWhile is_digit r1" by simp
  also have "dropWhile is_digit r1 = '':value>'' @ r"
    using r2 by (rule match_literal_append)
  finally have "r1 = ds @ '':value>'' @ r" using ds by simp
  with match_literal_append [OF r1] show "s = ''<stat:'' @ ds @ '':value>'' @ r" by simp
  show "ds \<noteq> []" by (rule ne)
  show "\<forall>c\<in>set ds. is_digit c" unfolding ds by (auto dest: set_takeWhileD)
qed

lemma match_stat_value_shorter:
  "match_stat_value s = Some (ds, r) \<Longrightarrow> length r < length s"
  by (drule match_stat_value_shape(1)) simp

text \<open>
  The loop \<^verbatim>\<open>while ((match = regex.exec(formula)) !== null)\<close> with the global
  flag: the captures of the successive matches, each search starting where the last match ended.
\<close>

function stat_value_matches :: "string \<Rightarrow> string list" where
  "stat_value_matches s =
     (case match_stat_value s of
        Some (ds, rest) \<Rightarrow> ds # stat_value_matches rest
      | None \<Rightarrow> (case s of [] \<Rightarrow> [] | c # cs \<Rightarrow> stat_value_matches cs))"
  by pat_completeness auto
termination
  by (relation "measure length") (auto dest: match_stat_value_shorter)

declare stat_value_matches.simps [simp del]

text \<open>
  \<^verbatim>\<open>if (!dependencies.includes(statId)) dependencies.push(statId)\<close>, over the matches.
\<close>

fun push_new :: "int list \<Rightarrow> int list \<Rightarrow> int list" where
  "push_new deps [] = deps"
| "push_new deps (x # xs) = push_new (if x \<in> set deps then deps else deps @ [x]) xs"

definition findStatDependencies :: "string \<Rightarrow> int list" where
  "findStatDependencies formula = push_new [] (map parseInt (stat_value_matches formula))"

subsection \<open>What the dependency list is meant to be\<close>

text \<open>
  The reference reading of a formula, against which the loop above is compared: the digits
  of the \<^verbatim>\<open><stat:ID:value>\<close> token that starts at each position of the
  text, position by position, with no position skipped.
\<close>

fun all_token_starts :: "string \<Rightarrow> string list" where
  "all_token_starts [] = []"
| "all_token_starts (c # cs) =
     (case match_stat_value (c # cs) of Some (ds, r) \<Rightarrow> [ds] | None \<Rightarrow> []) @ all_token_starts cs"

text \<open>Each element once, at the place of its first occurrence.\<close>

fun keep_first :: "int list \<Rightarrow> int list" where
  "keep_first [] = []"
| "keep_first (x # xs) = x # filter (\<lambda>y. y \<noteq> x) (keep_first xs)"

section \<open>Properties of the dependency list\<close>

lemma match_stat_value_Nil [simp]: "match_stat_value [] = None"
  by (simp add: match_stat_value_def)

lemma match_stat_value_other:
  "c \<noteq> CHR ''<'' \<Longrightarrow> match_stat_value (c # cs) = None"
  by (simp add: match_stat_value_def)

lemma match_stat_value_token:
  assumes "ds \<noteq> []" and "list_all is_digit ds"
  shows "match_stat_value (''<stat:'' @ ds @ '':value>'' @ r) = Some (ds, r)"
proof -
  have "\<not> is_digit CHR '':''" by (simp add: is_digit_def)
  then have tw: "takeWhile is_digit (ds @ '':value>'' @ r) = ds"
    and dw: "dropWhile is_digit (ds @ '':value>'' @ r) = '':value>'' @ r"
    using assms(2) by (simp_all add: list_all_iff takeWhile_append2 dropWhile_append2)
  show ?thesis
    using assms(1) tw dw by (simp add: match_stat_value_def Let_def)
qed

lemma match_stat_value_iff:
  "match_stat_value s = Some (ds, r) \<longleftrightarrow>
     s = ''<stat:'' @ ds @ '':value>'' @ r \<and> ds \<noteq> [] \<and> list_all is_digit ds"
  using match_stat_value_shape [of s ds r] match_stat_value_token [of ds r]
  by (auto simp: list_all_iff)

lemma all_token_starts_skip:
  "CHR ''<'' \<notin> set t \<Longrightarrow> all_token_starts (t @ r) = all_token_starts r"
  by (induction t) (auto simp: match_stat_value_other)

lemma not_digit_lt: "\<not> is_digit CHR ''<''"
  by (simp add: is_digit_def)

lemma digits_no_lt: "list_all is_digit ds \<Longrightarrow> CHR ''<'' \<notin> set ds"
  using not_digit_lt by (auto simp: list_all_iff)

lemma stat_value_matches_all: "stat_value_matches s = all_token_starts s"
proof (induction s rule: stat_value_matches.induct)
  case (1 s)
  show ?case
  proof (cases "match_stat_value s")
    case None
    show ?thesis
    proof (cases s)
      case Nil
      then show ?thesis by (simp add: stat_value_matches.simps [of "[]"])
    next
      case (Cons c cs)
      with None "1.IH"(1) [OF None Cons] show ?thesis
        by (simp add: stat_value_matches.simps [of "c # cs"])
    qed
  next
    case (Some p)
    obtain ds r where p: "p = (ds, r)" by (cases p)
    from Some p have m: "match_stat_value s = Some (ds, r)" by simp
    then have s: "s = CHR ''<'' # (''stat:'' @ ds @ '':value>'') @ r" and dg: "list_all is_digit ds"
      by (simp_all add: match_stat_value_iff)
    have "CHR ''<'' \<notin> set (''stat:'' @ ds @ '':value>'')"
      using digits_no_lt [OF dg] by simp
    then have skip: "all_token_starts ((''stat:'' @ ds @ '':value>'') @ r) = all_token_starts r"
      by (rule all_token_starts_skip)
    have "all_token_starts (CHR ''<'' # (''stat:'' @ ds @ '':value>'') @ r) = ds # all_token_starts r"
      using m [unfolded s] skip by (simp only: all_token_starts.simps option.case prod.case append_Cons append_Nil)
    then have lhs: "all_token_starts s = ds # all_token_starts r"
      using s by simp
    have rhs: "stat_value_matches s = ds # stat_value_matches r"
      using m by (simp add: stat_value_matches.simps [of s])
    from "1.IH"(2) [OF Some p [symmetric]] have "stat_value_matches r = all_token_starts r" .
    with lhs rhs show ?thesis by simp
  qed
qed

lemma push_new_keep_first:
  "push_new deps xs = deps @ filter (\<lambda>y. y \<notin> set deps) (keep_first xs)"
proof (induction xs arbitrary: deps)
  case Nil
  then show ?case by simp
next
  case (Cons x xs)
  show ?case
  proof (cases "x \<in> set deps")
    case True
    then have "filter (\<lambda>y. y \<notin> set deps) (filter (\<lambda>y. y \<noteq> x) (keep_first xs))
             = filter (\<lambda>y. y \<notin> set deps) (keep_first xs)"
      by (auto intro: filter_cong)
    with True Cons.IH [of deps] show ?thesis by simp
  next
    case False
    have "filter (\<lambda>y. y \<notin> set (deps @ [x])) (keep_first xs)
        = filter (\<lambda>y. y \<notin> set deps) (filter (\<lambda>y. y \<noteq> x) (keep_first xs))"
      by (auto intro: filter_cong)
    with False Cons.IH [of "deps @ [x]"] show ?thesis by simp
  qed
qed

lemma distinct_keep_first: "distinct (keep_first xs)"
  by (induction xs) (auto simp: distinct_filter)

lemma set_keep_first: "set (keep_first xs) = set xs"
  by (induction xs) auto

lemma in_all_token_starts:
  "ds \<in> set (all_token_starts f) \<longleftrightarrow>
     (\<exists>pre post. f = pre @ ''<stat:'' @ ds @ '':value>'' @ post \<and> ds \<noteq> [] \<and> list_all is_digit ds)"
proof (induction f)
  case Nil
  then show ?case by simp
next
  case (Cons c cs)
  show ?case
  proof
    assume "ds \<in> set (all_token_starts (c # cs))"
    then consider (here) r where "match_stat_value (c # cs) = Some (ds, r)"
      | (later) "ds \<in> set (all_token_starts cs)"
      by (cases "match_stat_value (c # cs)") auto
    then show "\<exists>pre post. c # cs = pre @ ''<stat:'' @ ds @ '':value>'' @ post \<and> ds \<noteq> [] \<and> list_all is_digit ds"
    proof cases
      case here
      then have "c # cs = [] @ ''<stat:'' @ ds @ '':value>'' @ r \<and> ds \<noteq> [] \<and> list_all is_digit ds"
        by (simp add: match_stat_value_iff)
      then show ?thesis by blast
    next
      case later
      with Cons.IH obtain pre post where
        "cs = pre @ ''<stat:'' @ ds @ '':value>'' @ post" "ds \<noteq> []" "list_all is_digit ds"
        by blast
      then have "c # cs = (c # pre) @ ''<stat:'' @ ds @ '':value>'' @ post \<and> ds \<noteq> [] \<and> list_all is_digit ds"
        by simp
      then show ?thesis by blast
    qed
  next
    assume "\<exists>pre post. c # cs = pre @ ''<stat:'' @ ds @ '':value>'' @ post \<and> ds \<noteq> [] \<and> list_all is_digit ds"
    then obtain pre post where eq: "c # cs = pre @ ''<stat:'' @ ds @ '':value>'' @ post"
      and ne: "ds \<noteq> []" and dg: "list_all is_digit ds" by blast
    show "ds \<in> set (all_token_starts (c # cs))"
    proof (cases pre)
      case Nil
      with eq have "match_stat_value (c # cs) = Some (ds, post)"
        using match_stat_value_token [OF ne dg, of post] by simp
      then show ?thesis by simp
    next
      case (Cons p pre')
      with eq have "cs = pre' @ ''<stat:'' @ ds @ '':value>'' @ post" by simp
      with Cons.IH ne dg have "ds \<in> set (all_token_starts cs)" by blast
      then show ?thesis by simp
    qed
  qed
qed


text \<open>
  Claim C7. For every formula, \<^const>\<open>findStatDependencies\<close> returns the ids of the
  \<^verbatim>\<open><stat:ID:value>\<close> tokens of the formula, each id once, in the order
  of their first occurrences; an id is in the result exactly when the formula contains a
  token \<^verbatim>\<open><stat:\<close>digits\<^verbatim>\<open>:value>\<close> with that value, so
  tokens of other kinds and other properties add nothing.
\<close>

theorem findStatDependencies_first_occurrences:
  "findStatDependencies f = keep_first (map parseInt (all_token_starts f))
   \<and> distinct (findStatDependencies f)
   \<and> set (findStatDependencies f) =
       {parseInt ds |ds. \<exists>pre post. f = pre @ ''<stat:'' @ ds @ '':value>'' @ post
                          \<and> ds \<noteq> [] \<and> list_all is_digit ds}"
proof -
  have eq: "findStatDependencies f = keep_first (map parseInt (all_token_starts f))"
    by (simp add: findStatDependencies_def push_new_keep_first stat_value_matches_all)
  have "set (findStatDependencies f) = parseInt ` set (all_token_starts f)"
    by (simp add: eq set_keep_first)
  also have "\<dots> = {parseInt ds |ds. \<exists>pre post. f = pre @ ''<stat:'' @ ds @ '':value>'' @ post
                          \<and> ds \<noteq> [] \<and> list_all is_digit ds}"
    using in_all_token_starts [of _ f] by blast
  finally show ?thesis
    using eq distinct_keep_first [of "map parseInt (all_token_starts f)"] by simp
qed

theorem findStatDependencies_first_occurrences_witness:
  "keep_first (map parseInt
     (all_token_starts ''<stat:2:value> + <stat:10:value> * <stat:2:value> <stat:3:name>'')) = [2, 10]"
proof -
  have "findStatDependencies ''<stat:2:value> + <stat:10:value> * <stat:2:value> <stat:3:name>'' = [2, 10]"
    by code_simp
  with findStatDependencies_first_occurrences
    [of "''<stat:2:value> + <stat:10:value> * <stat:2:value> <stat:3:name>''"]
  show ?thesis by simp
qed

section \<open>The schema\<close>

text \<open>
  A localized label is an object from locale names to texts, \<^verbatim>\<open>default\<close> among
  the keys. The optional fields of the interfaces are options. Of a stat, the fields that
  the functions below read are kept: id, name, emoji and the variant with its own fields.
\<close>

type_synonym localization = "string \<rightharpoonup> string"

record StatsEnumOption =
  opt_value :: int
  opt_name :: "localization option"
  opt_emoji :: "string option"

datatype enum_options = OptionList "StatsEnumOption list" | OptionRef int

datatype stat_type =
    Numeric "int option" "int option"
  | Enum enum_options
  | Boolean
  | String
  | Calculated string

record Stats =
  stat_id :: int
  stat_name :: "localization option"
  stat_emoji :: "string option"
  stat_type :: stat_type

section \<open>The cycle detector\<close>

text \<open>
  The measure of the termination proof: the ids of the list that are not yet on the path.
  A call for an id already on the path returns at once; any other call puts its id on the path.
\<close>

definition stat_ids :: "Stats list \<Rightarrow> int set" where
  "stat_ids ss = stat_id ` set ss"

definition check_measure :: "(int \<times> Stats list \<times> int set \<times> int \<times> string) + (int \<times> Stats list \<times> int set \<times> int list) \<Rightarrow> nat \<times> nat" where
  "check_measure x = (case x of
       Inl (c, ss, visited, statId, f) \<Rightarrow>
         (if statId \<in> visited then 0 else 2 * card (stat_ids ss - insert statId visited) + 1, 0)
     | Inr (c, ss, visited, deps) \<Rightarrow> (2 * card (stat_ids ss - visited), Suc (length deps)))"

lemma find_stat_id: "find (\<lambda>s. stat_id s = d) ss = Some x \<Longrightarrow> d \<in> stat_ids ss"
  by (auto simp: find_Some_iff stat_ids_def)

lemma card_unvisited_insert:
  assumes "d \<in> stat_ids ss" "d \<notin> visited"
  shows "2 * card (stat_ids ss - insert d visited) + 1 < 2 * card (stat_ids ss - visited)"
proof -
  have fin: "finite (stat_ids ss - visited)" by (simp add: stat_ids_def)
  have eq: "stat_ids ss - insert d visited = (stat_ids ss - visited) - {d}" by auto
  have "d \<in> stat_ids ss - visited" using assms by simp
  with fin have "card ((stat_ids ss - visited) - {d}) < card (stat_ids ss - visited)"
    by (rule card_Diff1_less)
  then show ?thesis unfolding eq by simp
qed

lemma card_unvisited_mono:
  "visited \<subseteq> v \<Longrightarrow> card (stat_ids ss - v) \<le> card (stat_ids ss - visited)"
  by (rule card_mono) (auto simp: stat_ids_def)

text \<open>
  \<^verbatim>\<open>hasCircularDependency\<close> keeps one mutable set \<^verbatim>\<open>visited\<close> shared by
  all the calls of its inner function. The set is threaded through explicitly: each function
  returns its answer with the set as it leaves it. \<open>for_dependencies\<close> is the
  \<^verbatim>\<open>for (const depId of dependencies)\<close> loop, which an early
  \<^verbatim>\<open>return true\<close> leaves at once; the set is only restored
  (\<^verbatim>\<open>visited.delete(statId)\<close>) when the loop runs to its end.
\<close>

function checkRecursive :: "int \<Rightarrow> Stats list \<Rightarrow> int set \<Rightarrow> int \<Rightarrow> string \<Rightarrow> bool \<times> int set"
  and for_dependencies :: "int \<Rightarrow> Stats list \<Rightarrow> int set \<Rightarrow> int list \<Rightarrow> bool \<times> int set"
where
  "checkRecursive currentStatId allStats visited statId currentFormula =
     (if statId \<in> visited then (True, visited)
      else (case for_dependencies currentStatId allStats (insert statId visited)
                   (findStatDependencies currentFormula) of
              (found, v) \<Rightarrow> if found then (True, v) else (False, v - {statId})))"
| "for_dependencies currentStatId allStats visited [] = (False, visited)"
| "for_dependencies currentStatId allStats visited (depId # deps) =
     (if depId = currentStatId then (True, visited)
      else (case find (\<lambda>s. stat_id s = depId) allStats of
              None \<Rightarrow> for_dependencies currentStatId allStats visited deps
            | Some depStat \<Rightarrow>
                (case stat_type depStat of
                   Calculated formula \<Rightarrow>
                     (case checkRecursive currentStatId allStats visited depId formula of
                        (found, v) \<Rightarrow>
                          if found then (True, v)
                          else for_dependencies currentStatId allStats v deps)
                 | _ \<Rightarrow> for_dependencies currentStatId allStats visited deps)))"
  by pat_completeness auto


text \<open>Where the functions are defined, they never shrink the set they were given.\<close>

lemma visited_grows:
  "checkRecursive_for_dependencies_dom (Inl (c, ss, visited, statId, f)) \<Longrightarrow>
     visited \<subseteq> snd (checkRecursive c ss visited statId f)"
  "checkRecursive_for_dependencies_dom (Inr (c, ss, visited, deps)) \<Longrightarrow>
     visited \<subseteq> snd (for_dependencies c ss visited deps)"
proof (induction c ss visited statId f and c ss visited deps
       rule: checkRecursive_for_dependencies.pinduct)
  case (1 c ss visited statId f)
  then show ?case
    by (auto simp: checkRecursive.psimps split: prod.splits if_splits)
next
  case (2 c ss visited)
  then show ?case by (simp add: for_dependencies.psimps)
next
  case (3 c ss visited depId deps)
  then show ?case
    apply (simp add: for_dependencies.psimps split: option.splits stat_type.splits prod.splits)
    by (metis order_trans snd_conv)+
qed


termination checkRecursive
proof (relation "inv_image (less_than <*lex*> less_than) check_measure", goal_cases)
  case 1
  show ?case by (intro wf_inv_image wf_lex_prod wf_less_than)
next
  case 2 then show ?case by (simp add: check_measure_def)
next
  case 3 then show ?case by (simp add: check_measure_def)
next
  case 4 then show ?case by (simp add: check_measure_def)
next
  case 5 then show ?case by (simp add: check_measure_def)
next
  case 6 then show ?case by (simp add: check_measure_def)
next
  case 7 then show ?case by (simp add: check_measure_def)
next
  case (8 c ss visited depId deps depStat formula)
  then show ?case
    using card_unvisited_insert [OF find_stat_id, of depId ss depStat visited]
    by (auto simp: check_measure_def)
next
  case (9 c ss visited depId deps depStat formula found v)
  from visited_grows(1) [OF 9(6)] 9(4) have "visited \<subseteq> v"
    by (metis snd_conv)
  from card_unvisited_mono [OF this, of ss] show ?case
    by (auto simp: check_measure_def)
qed

definition hasCircularDependency :: "int \<Rightarrow> string \<Rightarrow> Stats list \<Rightarrow> bool" where
  "hasCircularDependency currentStatId formula allStats =
     fst (checkRecursive currentStatId allStats {} currentStatId formula)"


text \<open>
  Claim C9. \<^verbatim>\<open>hasCircularDependency\<close> terminates on every input: every call
  of the traversal, for any target id, list of stats, on-path set and formula, lies in the
  domain on which the recursion is well-founded, whatever cycles the formulas form; and a
  call for a node that is already on the path returns at once without expanding it.
\<close>

theorem hasCircularDependency_terminates:
  "checkRecursive_for_dependencies_dom (Inl (currentStatId, allStats, visited, statId, formula))
   \<and> checkRecursive_for_dependencies_dom (Inr (currentStatId, allStats, visited, deps))
   \<and> checkRecursive currentStatId allStats (insert statId visited) statId formula
       = (True, insert statId visited)"
proof -
  have "All checkRecursive_for_dependencies_dom"
  proof (relation "inv_image (less_than <*lex*> less_than) check_measure", goal_cases)
    case 1
    show ?case by (intro wf_inv_image wf_lex_prod wf_less_than)
  next
    case 2 then show ?case by (simp add: check_measure_def)
  next
    case 3 then show ?case by (simp add: check_measure_def)
  next
    case 4 then show ?case by (simp add: check_measure_def)
  next
    case 5 then show ?case by (simp add: check_measure_def)
  next
    case 6 then show ?case by (simp add: check_measure_def)
  next
    case 7 then show ?case by (simp add: check_measure_def)
  next
    case (8 c ss visited depId deps depStat formula)
    then show ?case
      using card_unvisited_insert [OF find_stat_id, of depId ss depStat visited]
      by (auto simp: check_measure_def)
  next
    case (9 c ss visited depId deps depStat formula found v)
    from visited_grows(1) [OF 9(6)] 9(4) have "visited \<subseteq> v"
      by (metis snd_conv)
    from card_unvisited_mono [OF this, of ss] show ?case
      by (auto simp: check_measure_def)
  qed
  then show ?thesis by (simp add: checkRecursive.simps)
qed

subsection \<open>The graph of formula references\<close>

text \<open>
  The direct dependencies of a node: those of the proposed formula for the stat under
  test, and for any other id those of the formula of the first stat of the list with that id,
  when that stat is calculated.
\<close>

definition dependencies_of :: "int \<Rightarrow> string \<Rightarrow> Stats list \<Rightarrow> int \<Rightarrow> int list" where
  "dependencies_of currentStatId formula allStats n =
     (if n = currentStatId then findStatDependencies formula
      else (case find (\<lambda>s. stat_id s = n) allStats of
              None \<Rightarrow> []
            | Some s \<Rightarrow> (case stat_type s of Calculated f \<Rightarrow> findStatDependencies f | _ \<Rightarrow> [])))"

definition dependency_edges :: "int \<Rightarrow> string \<Rightarrow> Stats list \<Rightarrow> (int \<times> int) set" where
  "dependency_edges currentStatId formula allStats =
     {(n, d). d \<in> set (dependencies_of currentStatId formula allStats n)}"

declare checkRecursive.simps [simp del] for_dependencies.simps(2) [simp del]

lemma no_cycle_found_restores:
  "\<not> fst (checkRecursive c ss visited statId f) \<Longrightarrow>
     snd (checkRecursive c ss visited statId f) = visited"
  "\<not> fst (for_dependencies c ss visited deps) \<Longrightarrow>
     snd (for_dependencies c ss visited deps) = visited"
proof (induction c ss visited statId f and c ss visited deps
       rule: checkRecursive_for_dependencies.induct)
  case (1 c ss visited statId f)
  then show ?case
    by (auto simp: checkRecursive.simps [of c ss visited statId f] split: prod.splits if_splits)
next
  case (2 c ss visited)
  then show ?case by simp
next
  case (3 c ss visited depId deps)
  show ?case
  proof (cases "find (\<lambda>s. stat_id s = depId) ss")
    case None
    with 3 show ?thesis
      by (auto simp: for_dependencies.simps(2) [of c ss visited depId deps] split: if_splits)
  next
    case (Some depStat)
    show ?thesis
    proof (cases "stat_type depStat")
      case (Calculated formula)
      obtain found v where r: "checkRecursive c ss visited depId formula = (found, v)"
        by (cases "checkRecursive c ss visited depId formula")
      from "3.prems" Some Calculated r have ne: "depId \<noteq> c" and nf: "\<not> found"
        and rest: "\<not> fst (for_dependencies c ss v deps)"
        by (auto simp: for_dependencies.simps(2) [of c ss visited depId deps] split: if_splits)
      from "3.IH"(6) [OF ne Some Calculated] r nf have v: "v = visited" by simp
      from "3.IH"(7) [OF ne Some Calculated r [symmetric] nf rest]
      have "snd (for_dependencies c ss v deps) = v" .
      with ne Some Calculated r nf v show ?thesis
        by (simp add: for_dependencies.simps(2) [of c ss visited depId deps])
    qed (use 3 Some in \<open>auto simp: for_dependencies.simps(2) [of c ss visited depId deps] split: if_splits\<close>)
  qed
qed

lemma edge_iff:
  "(a, b) \<in> dependency_edges c f0 ss \<longleftrightarrow> b \<in> set (dependencies_of c f0 ss a)"
  by (simp add: dependency_edges_def)

lemma leaf_reach:
  assumes "dependencies_of c f0 ss d = []"
  shows "(d, n) \<in> (dependency_edges c f0 ss)\<^sup>* \<Longrightarrow> n = d"
    and "(d, n) \<notin> (dependency_edges c f0 ss)\<^sup>+"
proof -
  have no_edge: "(d, y) \<notin> dependency_edges c f0 ss" for y
    using assms by (simp add: edge_iff)
  show "(d, n) \<in> (dependency_edges c f0 ss)\<^sup>* \<Longrightarrow> n = d"
    by (erule converse_rtranclE) (use no_edge in auto)
  show "(d, n) \<notin> (dependency_edges c f0 ss)\<^sup>+"
    using no_edge by (auto dest: tranclD)
qed

lemma acyclic_below_step:
  assumes succs: "\<And>d n. d \<in> set (dependencies_of c f0 ss a) \<Longrightarrow>
                    (d, n) \<in> (dependency_edges c f0 ss)\<^sup>* \<Longrightarrow> (n, n) \<notin> (dependency_edges c f0 ss)\<^sup>+"
    and reach: "(a, n) \<in> (dependency_edges c f0 ss)\<^sup>*"
  shows "(n, n) \<notin> (dependency_edges c f0 ss)\<^sup>+"
proof -
  let ?E = "dependency_edges c f0 ss"
  have below: "(n', n') \<notin> ?E\<^sup>+" if "(a, d) \<in> ?E" "(d, n') \<in> ?E\<^sup>*" for d n'
    using succs that by (simp add: edge_iff)
  from reach show ?thesis
  proof (cases rule: converse_rtranclE)
    case base
    show ?thesis
    proof
      assume "(n, n) \<in> ?E\<^sup>+"
      with base have "(a, a) \<in> ?E\<^sup>+" by simp
      then obtain d where "(a, d) \<in> ?E" "(d, a) \<in> ?E\<^sup>*" by (auto dest: tranclD)
      from below [OF this] \<open>(a, a) \<in> ?E\<^sup>+\<close> show False by simp
    qed
  next
    case (step d)
    then show ?thesis using below by blast
  qed
qed

lemma not_found_acyclic:
  "set (findStatDependencies f) = set (dependencies_of c f0 ss statId) \<Longrightarrow>
   \<not> fst (checkRecursive c ss visited statId f) \<Longrightarrow>
   (statId, n) \<in> (dependency_edges c f0 ss)\<^sup>* \<Longrightarrow> (n, n) \<notin> (dependency_edges c f0 ss)\<^sup>+"
  "\<not> fst (for_dependencies c ss visited deps) \<Longrightarrow> d \<in> set deps \<Longrightarrow>
   d \<noteq> c \<and> ((d, n) \<in> (dependency_edges c f0 ss)\<^sup>* \<longrightarrow> (n, n) \<notin> (dependency_edges c f0 ss)\<^sup>+)"
proof (induction c ss visited statId f and c ss visited deps arbitrary: n and d n
       rule: checkRecursive_for_dependencies.induct)
  case (1 c ss visited statId f)
  from "1.prems"(2) have nv: "statId \<notin> visited"
    and nf: "\<not> fst (for_dependencies c ss (insert statId visited) (findStatDependencies f))"
    by (auto simp: checkRecursive.simps [of c ss visited statId f] split: prod.splits if_splits)
  show ?case
  proof (rule acyclic_below_step [OF _ "1.prems"(3)])
    fix d n' assume "d \<in> set (dependencies_of c f0 ss statId)"
      and "(d, n') \<in> (dependency_edges c f0 ss)\<^sup>*"
    with "1.IH" [OF nv nf, of d n'] "1.prems"(1)
    show "(n', n') \<notin> (dependency_edges c f0 ss)\<^sup>+" by simp
  qed
next
  case (2 c ss visited)
  then show ?case by simp
next
  case (3 c ss visited depId deps)
  let ?E = "dependency_edges c f0 ss"
  from "3.prems"(1) have ne: "depId \<noteq> c"
    by (auto simp: for_dependencies.simps(2) [of c ss visited depId deps])
  have simple: "d \<noteq> c \<and> ((d, n) \<in> ?E\<^sup>* \<longrightarrow> (n, n) \<notin> ?E\<^sup>+)"
    if leaf: "dependencies_of c f0 ss depId = []"
      and ih: "d \<in> set deps \<Longrightarrow> d \<noteq> c \<and> ((d, n) \<in> ?E\<^sup>* \<longrightarrow> (n, n) \<notin> ?E\<^sup>+)"
  proof (cases "d = depId")
    case True
    with ne leaf_reach [OF leaf] show ?thesis by blast
  next
    case False
    with "3.prems"(2) ih show ?thesis by simp
  qed
  show ?case
  proof (cases "find (\<lambda>s. stat_id s = depId) ss")
    case None
    with "3.prems"(1) ne have nf: "\<not> fst (for_dependencies c ss visited deps)"
      by (simp add: for_dependencies.simps(2) [of c ss visited depId deps])
    show ?thesis
      by (rule simple) (use ne None "3.IH"(1) [OF ne None nf] in \<open>auto simp: dependencies_of_def\<close>)
  next
    case (Some depStat)
    show ?thesis
    proof (cases "stat_type depStat")
      case (Numeric lo hi)
      with "3.prems"(1) ne Some have nf: "\<not> fst (for_dependencies c ss visited deps)"
        by (simp add: for_dependencies.simps(2) [of c ss visited depId deps])
      show ?thesis
        by (rule simple)
          (use ne Some Numeric "3.IH"(2) [OF ne Some Numeric nf] in \<open>auto simp: dependencies_of_def\<close>)
    next
      case (Enum opts)
      with "3.prems"(1) ne Some have nf: "\<not> fst (for_dependencies c ss visited deps)"
        by (simp add: for_dependencies.simps(2) [of c ss visited depId deps])
      show ?thesis
        by (rule simple)
          (use ne Some Enum "3.IH"(3) [OF ne Some Enum nf] in \<open>auto simp: dependencies_of_def\<close>)
    next
      case Boolean
      with "3.prems"(1) ne Some have nf: "\<not> fst (for_dependencies c ss visited deps)"
        by (simp add: for_dependencies.simps(2) [of c ss visited depId deps])
      show ?thesis
        by (rule simple)
          (use ne Some Boolean "3.IH"(4) [OF ne Some Boolean nf] in \<open>auto simp: dependencies_of_def\<close>)
    next
      case String
      with "3.prems"(1) ne Some have nf: "\<not> fst (for_dependencies c ss visited deps)"
        by (simp add: for_dependencies.simps(2) [of c ss visited depId deps])
      show ?thesis
        by (rule simple)
          (use ne Some String "3.IH"(5) [OF ne Some String nf] in \<open>auto simp: dependencies_of_def\<close>)
    next
      case (Calculated formula)
      obtain found v where r: "checkRecursive c ss visited depId formula = (found, v)"
        by (cases "checkRecursive c ss visited depId formula")
      from "3.prems"(1) ne Some Calculated r have nf: "\<not> found"
        and rest: "\<not> fst (for_dependencies c ss v deps)"
        by (auto simp: for_dependencies.simps(2) [of c ss visited depId deps] split: if_splits)
      have deps: "set (findStatDependencies formula) = set (dependencies_of c f0 ss depId)"
        using ne Some Calculated by (simp add: dependencies_of_def)
      show ?thesis
      proof (cases "d = depId")
        case True
        from "3.IH"(6) [OF ne Some Calculated deps _, of n] r nf True ne
        show ?thesis by simp
      next
        case False
        with "3.prems"(2) have "d \<in> set deps" by simp
        from "3.IH"(7) [OF ne Some Calculated r [symmetric] nf rest this]
        show ?thesis .
      qed
    qed
  qed
qed

lemma found_cycle:
  "set (findStatDependencies f) \<subseteq> set (dependencies_of c f0 ss statId) \<Longrightarrow>
   (c, statId) \<in> (dependency_edges c f0 ss)\<^sup>* \<Longrightarrow>
   (\<And>v. v \<in> visited \<Longrightarrow> (v, statId) \<in> (dependency_edges c f0 ss)\<^sup>+) \<Longrightarrow>
   fst (checkRecursive c ss visited statId f) \<Longrightarrow>
   \<exists>n. (c, n) \<in> (dependency_edges c f0 ss)\<^sup>* \<and> (n, n) \<in> (dependency_edges c f0 ss)\<^sup>+"
  "set deps \<subseteq> set (dependencies_of c f0 ss node) \<Longrightarrow>
   (c, node) \<in> (dependency_edges c f0 ss)\<^sup>* \<Longrightarrow>
   (\<And>v. v \<in> visited \<Longrightarrow> (v, node) \<in> (dependency_edges c f0 ss)\<^sup>*) \<Longrightarrow>
   fst (for_dependencies c ss visited deps) \<Longrightarrow>
   \<exists>n. (c, n) \<in> (dependency_edges c f0 ss)\<^sup>* \<and> (n, n) \<in> (dependency_edges c f0 ss)\<^sup>+"
proof (induction c ss visited statId f and c ss visited deps arbitrary: and node
       rule: checkRecursive_for_dependencies.induct)
  case (1 c ss visited statId f)
  let ?E = "dependency_edges c f0 ss"
  show ?case
  proof (cases "statId \<in> visited")
    case True
    with "1.prems"(2,3) show ?thesis by blast
  next
    case False
    with "1.prems"(4)
    have found: "fst (for_dependencies c ss (insert statId visited) (findStatDependencies f))"
      by (auto simp: checkRecursive.simps [of c ss visited statId f] split: prod.splits if_splits)
    have on_path: "(v, statId) \<in> ?E\<^sup>*" if "v \<in> insert statId visited" for v
      using that "1.prems"(3) by (auto intro: trancl_into_rtrancl)
    from "1.IH" [OF False "1.prems"(1,2) on_path found] show ?thesis by simp
  qed
next
  case (2 c ss visited)
  then show ?case by simp
next
  case (3 c ss visited depId deps)
  let ?E = "dependency_edges c f0 ss"
  from "3.prems"(1) have edge: "(node, depId) \<in> ?E" and tl: "set deps \<subseteq> set (dependencies_of c f0 ss node)"
    by (simp_all add: edge_iff)
  show ?case
  proof (cases "depId = c")
    case True
    with "3.prems"(2) edge have "(c, c) \<in> ?E\<^sup>+" by (auto intro: rtrancl_into_trancl1)
    then show ?thesis by blast
  next
    case ne: False
    show ?thesis
    proof (cases "find (\<lambda>s. stat_id s = depId) ss")
      case None
      with "3.prems"(4) ne have found: "fst (for_dependencies c ss visited deps)"
        by (simp add: for_dependencies.simps(2) [of c ss visited depId deps])
      from "3.IH"(1) [OF ne None tl "3.prems"(2,3) found] show ?thesis by simp
    next
      case (Some depStat)
      show ?thesis
      proof (cases "stat_type depStat")
        case (Numeric lo hi)
        with "3.prems"(4) ne Some have found: "fst (for_dependencies c ss visited deps)"
          by (simp add: for_dependencies.simps(2) [of c ss visited depId deps])
        from "3.IH"(2) [OF ne Some Numeric tl "3.prems"(2,3) found] show ?thesis by simp
      next
        case (Enum opts)
        with "3.prems"(4) ne Some have found: "fst (for_dependencies c ss visited deps)"
          by (simp add: for_dependencies.simps(2) [of c ss visited depId deps])
        from "3.IH"(3) [OF ne Some Enum tl "3.prems"(2,3) found] show ?thesis by simp
      next
        case Boolean
        with "3.prems"(4) ne Some have found: "fst (for_dependencies c ss visited deps)"
          by (simp add: for_dependencies.simps(2) [of c ss visited depId deps])
        from "3.IH"(4) [OF ne Some Boolean tl "3.prems"(2,3) found] show ?thesis by simp
      next
        case String
        with "3.prems"(4) ne Some have found: "fst (for_dependencies c ss visited deps)"
          by (simp add: for_dependencies.simps(2) [of c ss visited depId deps])
        from "3.IH"(5) [OF ne Some String tl "3.prems"(2,3) found] show ?thesis by simp
      next
        case (Calculated formula)
        obtain found v where r: "checkRecursive c ss visited depId formula = (found, v)"
          by (cases "checkRecursive c ss visited depId formula")
        have deps: "set (findStatDependencies formula) \<subseteq> set (dependencies_of c f0 ss depId)"
          using ne Some Calculated by (simp add: dependencies_of_def)
        have reach: "(c, depId) \<in> ?E\<^sup>*"
          using "3.prems"(2) edge by (auto intro: rtrancl_into_rtrancl)
        have on_path: "(x, depId) \<in> ?E\<^sup>+" if "x \<in> visited" for x
          using "3.prems"(3) [OF that] edge by (auto intro: rtrancl_into_trancl1)
        show ?thesis
        proof (cases found)
          case True
          from "3.IH"(6) [OF ne Some Calculated deps reach on_path] r True
          show ?thesis by simp
        next
          case False
          with no_cycle_found_restores(1) [of c ss visited depId formula] r
          have v: "v = visited" by simp
          from "3.prems"(4) ne Some Calculated r False
          have rest: "fst (for_dependencies c ss v deps)"
            by (simp add: for_dependencies.simps(2) [of c ss visited depId deps])
          have on_path': "(x, node) \<in> ?E\<^sup>*" if "x \<in> v" for x
            using that v "3.prems"(3) by simp
          from "3.IH"(7) [OF ne Some Calculated r [symmetric] False tl "3.prems"(2) on_path' rest]
          show ?thesis by simp
        qed
      qed
    qed
  qed
qed

text \<open>Some cycle of the graph can be reached from the stat under test.\<close>

definition cycle_reachable :: "int \<Rightarrow> string \<Rightarrow> Stats list \<Rightarrow> bool" where
  "cycle_reachable currentStatId formula allStats =
     (\<exists>n. (currentStatId, n) \<in> (dependency_edges currentStatId formula allStats)\<^sup>*
          \<and> (n, n) \<in> (dependency_edges currentStatId formula allStats)\<^sup>+)"

lemma hasCircularDependency_iff:
  "hasCircularDependency c f ss \<longleftrightarrow> cycle_reachable c f ss"
proof
  assume "hasCircularDependency c f ss"
  then have "fst (checkRecursive c ss {} c f)" by (simp add: hasCircularDependency_def)
  from found_cycle(1) [of f c f ss c "{}", OF _ _ _ this]
  show "cycle_reachable c f ss" by (simp add: cycle_reachable_def dependencies_of_def)
next
  assume cyc: "cycle_reachable c f ss"
  show "hasCircularDependency c f ss"
  proof (rule ccontr)
    assume "\<not> hasCircularDependency c f ss"
    then have nf: "\<not> fst (checkRecursive c ss {} c f)" by (simp add: hasCircularDependency_def)
    have "set (findStatDependencies f) = set (dependencies_of c f ss c)"
      by (simp add: dependencies_of_def)
    from not_found_acyclic(1) [OF this nf] cyc show False
      by (auto simp: cycle_reachable_def)
  qed
qed


text \<open>
  Claim C1, amended. \<^verbatim>\<open>hasCircularDependency(id, formula, stats)\<close> is true
  exactly when, in the graph of formula references with the proposed formula taken for
  \<open>id\<close>, some cycle can be reached from \<open>id\<close>: a path from \<open>id\<close> back to
  \<open>id\<close>, or a path from \<open>id\<close> to a node that lies on a cycle of its own.
\<close>

theorem hasCircularDependency_reaches_cycle:
  "hasCircularDependency currentStatId formula allStats \<longleftrightarrow>
     (\<exists>n. (currentStatId, n) \<in> (dependency_edges currentStatId formula allStats)\<^sup>*
          \<and> (n, n) \<in> (dependency_edges currentStatId formula allStats)\<^sup>+)"
  using hasCircularDependency_iff [of currentStatId formula allStats]
  by (simp add: cycle_reachable_def)

subsection \<open>A cycle beside the stat under test\<close>

text \<open>
  Stat 1 reads stat 2, and stats 2 and 3 read each other: the cycle 2, 3 is reached from
  stat 1, and no path leads back to stat 1.
\<close>

definition calc :: "int \<Rightarrow> string \<Rightarrow> Stats" where
  "calc i f = \<lparr>stat_id = i, stat_name = Some [''default'' \<mapsto> ''x''], stat_emoji = None, stat_type = Calculated f\<rparr>"

definition side_cycle_stats :: "Stats list" where
  "side_cycle_stats =
     [calc 1 ''<stat:2:value>'', calc 2 ''<stat:3:value>'', calc 3 ''<stat:2:value>'']"


lemma deps2: "findStatDependencies ''<stat:2:value>'' = [2]" by code_simp
lemma deps3: "findStatDependencies ''<stat:3:value>'' = [3]" by code_simp

lemma side_cycle_targets:
  "(a, b) \<in> dependency_edges 1 ''<stat:2:value>'' side_cycle_stats \<Longrightarrow> b = 2 \<or> b = 3"
  by (auto simp: dependency_edges_def dependencies_of_def side_cycle_stats_def calc_def deps2 deps3
      split: if_splits)

text \<open>
  Claim C1, as stated, fails: the detector answers true for stat 1 of this list, and the
  graph has no path from 1 back to 1.
\<close>

theorem hasCircularDependency_path_back_counterexample:
  "hasCircularDependency 1 ''<stat:2:value>'' side_cycle_stats
   \<and> (1, 1) \<notin> (dependency_edges 1 ''<stat:2:value>'' side_cycle_stats)\<^sup>+"
proof
  show "hasCircularDependency 1 ''<stat:2:value>'' side_cycle_stats" by code_simp
  show "(1, 1) \<notin> (dependency_edges 1 ''<stat:2:value>'' side_cycle_stats)\<^sup>+"
  proof
    assume "(1, 1) \<in> (dependency_edges 1 ''<stat:2:value>'' side_cycle_stats)\<^sup>+"
    then obtain z where "(z, 1) \<in> dependency_edges 1 ''<stat:2:value>'' side_cycle_stats"
      by (auto dest: tranclD2)
    from side_cycle_targets [OF this] show False by simp
  qed
qed

section \<open>The validator\<close>

text \<open>\<^verbatim>\<open>String(n)\<close> and \<^verbatim>\<open>${n}\<close> for an integer: its decimal digits, with a minus sign when negative.\<close>

definition digit_char :: "nat \<Rightarrow> char" where
  "digit_char d = ''0123456789'' ! d"

function string_of_nat :: "nat \<Rightarrow> string" where
  "string_of_nat n =
     (if n < 10 then [digit_char n] else string_of_nat (n div 10) @ [digit_char (n mod 10)])"
  by pat_completeness auto
termination
  by (relation "measure (\<lambda>n. n)") auto

declare string_of_nat.simps [simp del]

definition string_of_int :: "int \<Rightarrow> string" where
  "string_of_int i = (if i < 0 then CHR ''-'' # string_of_nat (nat (- i)) else string_of_nat (nat i))"

text \<open>The accented letters of the messages, as their UTF-8 bytes.\<close>

definition a_tilde :: string where "a_tilde = [CHR 0xC3, CHR 0xA3]"
definition c_cedilla :: string where "c_cedilla = [CHR 0xC3, CHR 0xA7]"
definition e_acute :: string where "e_acute = [CHR 0xC3, CHR 0xA9]"
definition e_circumflex :: string where "e_circumflex = [CHR 0xC3, CHR 0xAA]"
definition o_acute :: string where "o_acute = [CHR 0xC3, CHR 0xB3]"
definition o_tilde :: string where "o_tilde = [CHR 0xC3, CHR 0xB5]"

definition obrigatorio :: string where
  "obrigatorio = '' '' @ e_acute @ '' obrigat'' @ o_acute @ ''rio''"

record Preview =
  preview_type :: "string option"

record Section =
  sec_id :: int
  sec_name :: "localization option"
  sec_emoji :: "string option"
  sec_preview :: "Preview option"

text \<open>
  A field that should hold an array. A document read from a file may hold anything there;
  anything that is not an array has no \<^verbatim>\<open>forEach\<close>.
\<close>

datatype 'a collection = Array "'a list" | NotArray

record Config =
  config_id :: "int option"
  config_name :: "localization option"

record RPGSystem =
  config :: "Config option"
  stats :: "Stats collection"
  sections :: "Section collection"

datatype js_error = TypeError

text \<open>\<^verbatim>\<open>x.name?.default\<close>, and \<^verbatim>\<open>!v\<close> for a string that may be missing.\<close>

definition default_of :: "localization option \<Rightarrow> string option" where
  "default_of n = (case n of None \<Rightarrow> None | Some l \<Rightarrow> l ''default'')"

definition falsy :: "string option \<Rightarrow> bool" where
  "falsy v = (v = None \<or> v = Some [])"

definition is_array :: "'a collection \<Rightarrow> bool" where
  "is_array c = (case c of Array xs \<Rightarrow> True | NotArray \<Rightarrow> False)"

text \<open>The callback of \<^verbatim>\<open>e.options.forEach((o, j) => ...)\<close>, with the set \<^verbatim>\<open>seen\<close>.\<close>

fun options_forEach :: "nat \<Rightarrow> StatsEnumOption list \<Rightarrow> nat \<Rightarrow> int set \<Rightarrow> string list" where
  "options_forEach idx [] j seen = []"
| "options_forEach idx (opt # opts) j seen =
     (if opt_value opt \<in> seen
      then [''stats['' @ string_of_nat idx @ ''].options['' @ string_of_nat j @ ''].value duplicado: ''
              @ string_of_int (opt_value opt)]
      else [])
     @ (if falsy (default_of (opt_name opt))
        then [''stats['' @ string_of_nat idx @ ''].options['' @ string_of_nat j @ ''].name.default''
                @ obrigatorio]
        else [])
     @ options_forEach idx opts (Suc j) (insert (opt_value opt) seen)"

text \<open>The template \<^verbatim>\<open>`stats[${idx}] id duplicado: ${s.id}`\<close>.\<close>

definition duplicate_stat_message :: "nat \<Rightarrow> int \<Rightarrow> string" where
  "duplicate_stat_message idx i = ''stats['' @ string_of_nat idx @ ''] id duplicado: '' @ string_of_int i"

text \<open>
  The messages that the callback of \<^verbatim>\<open>system.stats.forEach((s, idx) => ...)\<close>
  pushes for one stat, in order; \<open>ids\<close> is the set of the ids seen before it.
\<close>

definition stat_errors :: "Stats list \<Rightarrow> nat \<Rightarrow> int set \<Rightarrow> Stats \<Rightarrow> string list" where
  "stat_errors allStats idx ids s =
     (if stat_id s \<in> ids
      then [duplicate_stat_message idx (stat_id s)]
      else [])
     @ (if falsy (default_of (stat_name s))
        then [''stats['' @ string_of_nat idx @ ''].name.default'' @ obrigatorio]
        else [])
     @ (case stat_type s of
          Numeric lo hi \<Rightarrow>
            (case (lo, hi) of
               (Some a, Some b) \<Rightarrow>
                 if a > b then [''stats['' @ string_of_nat idx @ ''] min > max''] else []
             | _ \<Rightarrow> [])
        | Enum (OptionList opts) \<Rightarrow>
            (if length opts > 25
             then [''stats['' @ string_of_nat idx @ ''] excede o limite de 25 op'' @ c_cedilla
                     @ o_tilde @ ''es ('' @ string_of_nat (length opts) @ '')'']
             else [])
            @ options_forEach idx opts 0 {}
        | Enum (OptionRef r) \<Rightarrow> []
        | Boolean \<Rightarrow> []
        | String \<Rightarrow> []
        | Calculated formula \<Rightarrow>
            (if formula = []
             then [''stats['' @ string_of_nat idx @ ''].formula'' @ obrigatorio]
             else [])
            @ (if formula \<noteq> [] \<and> hasCircularDependency (stat_id s) formula allStats
               then [''stats['' @ string_of_nat idx @ ''] tem depend'' @ e_circumflex
                       @ ''ncia circular na f'' @ o_acute @ ''rmula'']
               else [])
            @ concat (map (\<lambda>depId.
                 case find (\<lambda>s. stat_id s = depId) allStats of
                   None \<Rightarrow> [''stats['' @ string_of_nat idx @ ''].formula referencia stat inexistente: ''
                              @ string_of_int depId]
                 | Some depStat \<Rightarrow>
                     (case stat_type depStat of
                        String \<Rightarrow>
                          [''stats['' @ string_of_nat idx @ ''].formula referencia stat do tipo string: ''
                             @ string_of_int depId]
                      | _ \<Rightarrow> []))
               (findStatDependencies formula)))"

fun stats_forEach :: "Stats list \<Rightarrow> Stats list \<Rightarrow> nat \<Rightarrow> int set \<Rightarrow> string list" where
  "stats_forEach allStats [] idx ids = []"
| "stats_forEach allStats (s # rest) idx ids =
     stat_errors allStats idx ids s @ stats_forEach allStats rest (Suc idx) (insert (stat_id s) ids)"

fun sections_forEach :: "Section list \<Rightarrow> nat \<Rightarrow> int set \<Rightarrow> string list" where
  "sections_forEach [] i secIds = []"
| "sections_forEach (sec # rest) i secIds =
     (if sec_id sec \<in> secIds
      then [''sections['' @ string_of_nat i @ ''] id duplicado: '' @ string_of_int (sec_id sec)]
      else [])
     @ (if falsy (default_of (sec_name sec))
        then [''sections['' @ string_of_nat i @ ''].name.default'' @ obrigatorio]
        else [])
     @ (if falsy (case sec_preview sec of None \<Rightarrow> None | Some p \<Rightarrow> preview_type p)
        then [''sections['' @ string_of_nat i @ ''].preview.type'' @ obrigatorio]
        else [])
     @ sections_forEach rest (Suc i) (insert (sec_id sec) secIds)"

text \<open>
  \<^verbatim>\<open>validate\<close>. The four checks of the top-level fields push their messages, and
  then \<^verbatim>\<open>system.stats.forEach\<close> and \<^verbatim>\<open>system.sections.forEach\<close> are
  called whatever the checks found: on a value that is not an array the call throws a
  TypeError, which nothing in \<^verbatim>\<open>validate\<close> catches.
\<close>

definition config_errors :: "RPGSystem \<Rightarrow> string list" where
  "config_errors system =
     (let cid = (case config system of None \<Rightarrow> None | Some c \<Rightarrow> config_id c);
          cname = (case config system of None \<Rightarrow> None | Some c \<Rightarrow> default_of (config_name c))
      in (if (cid = None \<or> cid = Some 0) \<and> cid \<noteq> Some 0
          then [''config.id'' @ obrigatorio] else [])
         @ (if falsy cname then [''config.name.default'' @ obrigatorio] else [])
         @ (if \<not> is_array (stats system) then [''stats deve ser um array''] else [])
         @ (if \<not> is_array (sections system) then [''sections deve ser um array''] else []))"

definition validate :: "RPGSystem \<Rightarrow> js_error + string list" where
  "validate system =
     (case stats system of
        NotArray \<Rightarrow> Inl TypeError
      | Array ss \<Rightarrow>
          (case sections system of
             NotArray \<Rightarrow> Inl TypeError
           | Array secs \<Rightarrow>
               Inr (config_errors system @ stats_forEach ss ss 0 {} @ sections_forEach secs 0 {})))"

text \<open>A stat with a name and no emoji, for the examples.\<close>

definition plain :: "int \<Rightarrow> stat_type \<Rightarrow> Stats" where
  "plain i t = \<lparr>stat_id = i, stat_name = Some [''default'' \<mapsto> ''x''], stat_emoji = None, stat_type = t\<rparr>"

subsection \<open>Numbers and their digits\<close>

lemma digit_char_is_digit: "d < 10 \<Longrightarrow> is_digit (digit_char d)"
proof -
  assume "d < 10"
  then have "d \<in> {0, 1, 2, 3, 4, 5, 6, 7, 8, 9}" by auto
  then show ?thesis by (auto simp: digit_char_def is_digit_def)
qed

lemma digit_val_digit_char: "d < 10 \<Longrightarrow> digit_val (digit_char d) = int d"
proof -
  assume "d < 10"
  then have "d \<in> {0, 1, 2, 3, 4, 5, 6, 7, 8, 9}" by auto
  then show ?thesis by (auto simp: digit_char_def digit_val_def)
qed

lemma string_of_nat_digits: "list_all is_digit (string_of_nat n)"
proof (induction n rule: string_of_nat.induct)
  case (1 n)
  show ?case
  proof (cases "n < 10")
    case True
    then show ?thesis by (simp add: string_of_nat.simps [of n] digit_char_is_digit)
  next
    case False
    with 1 show ?thesis by (simp add: string_of_nat.simps [of n] digit_char_is_digit)
  qed
qed

lemma string_of_nat_not_Nil: "string_of_nat n \<noteq> []"
  by (subst string_of_nat.simps) simp

lemma parseInt_snoc: "parseInt (ds @ [c]) = 10 * parseInt ds + digit_val c"
  by (simp add: parseInt_def)

lemma parseInt_string_of_nat: "parseInt (string_of_nat n) = int n"
proof (induction n rule: string_of_nat.induct)
  case (1 n)
  show ?case
  proof (cases "n < 10")
    case True
    then show ?thesis
      by (simp add: string_of_nat.simps [of n] parseInt_def digit_val_digit_char)
  next
    case False
    with 1 have ih: "parseInt (string_of_nat (n div 10)) = int (n div 10)" by simp
    have "int n = int (10 * (n div 10) + n mod 10)" by simp
    also have "\<dots> = 10 * int (n div 10) + int (n mod 10)"
      by (simp only: of_nat_add of_nat_mult of_nat_numeral)
    finally have "10 * int (n div 10) + int (n mod 10) = int n" by simp
    with False ih show ?thesis
      by (simp add: string_of_nat.simps [of n] parseInt_snoc digit_val_digit_char)
  qed
qed

lemma string_of_nat_inj: "string_of_nat a = string_of_nat b \<longleftrightarrow> a = b"
  by (metis parseInt_string_of_nat of_nat_eq_iff)

lemma not_digit_minus: "\<not> is_digit CHR ''-''"
  by (simp add: is_digit_def)

lemma string_of_nat_no_minus: "string_of_nat n \<noteq> CHR ''-'' # r"
proof
  assume "string_of_nat n = CHR ''-'' # r"
  with string_of_nat_digits [of n] have "is_digit CHR ''-''" by simp
  with not_digit_minus show False by simp
qed

lemma string_of_int_inj: "string_of_int a = string_of_int b \<longleftrightarrow> a = b"
proof
  assume eq: "string_of_int a = string_of_int b"
  show "a = b"
  proof (cases "a < 0"; cases "b < 0")
    assume "a < 0" "b < 0"
    with eq have "nat (- a) = nat (- b)" by (simp add: string_of_int_def string_of_nat_inj)
    with \<open>a < 0\<close> \<open>b < 0\<close> show ?thesis by simp
  next
    assume "a < 0" "\<not> b < 0"
    with eq string_of_nat_no_minus [of "nat b"] show ?thesis
      by (simp add: string_of_int_def) metis
  next
    assume "\<not> a < 0" "b < 0"
    with eq string_of_nat_no_minus [of "nat a"] show ?thesis
      by (simp add: string_of_int_def)
  next
    assume "\<not> a < 0" "\<not> b < 0"
    with eq have "nat a = nat b" by (simp add: string_of_int_def string_of_nat_inj)
    with \<open>\<not> a < 0\<close> \<open>\<not> b < 0\<close> show ?thesis by simp
  qed
qed simp

lemma not_digit_bracket: "\<not> is_digit CHR '']''"
  by (simp add: is_digit_def)

lemma split_at_first:
  "c \<notin> set xs \<Longrightarrow> c \<notin> set ys \<Longrightarrow> xs @ c # r = ys @ c # r' \<longleftrightarrow> xs = ys \<and> r = r'"
proof (induction xs arbitrary: ys)
  case Nil
  then show ?case by (cases ys) auto
next
  case (Cons x xs)
  then show ?case by (cases ys) auto
qed

lemma index_bracket_eq [simp]:
  "string_of_nat a @ CHR '']'' # r = string_of_nat b @ CHR '']'' # r' \<longleftrightarrow> a = b \<and> r = r'"
proof -
  have "CHR '']'' \<notin> set (string_of_nat n)" for n
    using string_of_nat_digits [of n] not_digit_bracket by (auto simp: list_all_iff)
  then show ?thesis by (simp add: split_at_first string_of_nat_inj)
qed

subsection \<open>Duplicate ids\<close>

text \<open>A duplicate-id error for the stat id \<open>k\<close>, at whatever index.\<close>

definition duplicate_stat_id_error :: "int \<Rightarrow> string \<Rightarrow> bool" where
  "duplicate_stat_id_error k m =
     (\<exists>idx. m = duplicate_stat_message idx k)"

lemma options_forEach_no_duplicate_stat_id:
  "filter (duplicate_stat_id_error k) (options_forEach idx opts j seen) = []"
  by (induction opts arbitrary: j seen) (auto simp: duplicate_stat_id_error_def duplicate_stat_message_def)

lemma filter_concat_Nil: "(\<And>x. x \<in> set xs \<Longrightarrow> filter P (f x) = []) \<Longrightarrow> filter P (concat (map f xs)) = []"
  by (induction xs) auto

lemma stat_errors_duplicate:
  "filter (duplicate_stat_id_error k) (stat_errors allStats idx ids s) =
     (if stat_id s = k \<and> k \<in> ids
      then [duplicate_stat_message idx k] else [])"
proof -
  have deps: "filter (duplicate_stat_id_error k) (concat (map (\<lambda>depId.
                 case find (\<lambda>s. stat_id s = depId) allStats of
                   None \<Rightarrow> [''stats['' @ string_of_nat idx @ ''].formula referencia stat inexistente: ''
                              @ string_of_int depId]
                 | Some depStat \<Rightarrow>
                     (case stat_type depStat of
                        String \<Rightarrow>
                          [''stats['' @ string_of_nat idx @ ''].formula referencia stat do tipo string: ''
                             @ string_of_int depId]
                      | _ \<Rightarrow> [])) ds)) = []" for ds
    by (rule filter_concat_Nil)
       (auto simp: duplicate_stat_id_error_def duplicate_stat_message_def split: option.splits stat_type.splits)
  have dup: "duplicate_stat_id_error k (duplicate_stat_message idx i) \<longleftrightarrow> i = k" for i
    by (auto simp: duplicate_stat_id_error_def duplicate_stat_message_def string_of_int_inj)
  have name: "filter (duplicate_stat_id_error k)
      (if falsy (default_of (stat_name s))
        then [''stats['' @ string_of_nat idx @ ''].name.default'' @ obrigatorio]
        else []) = []"
    by (simp add: duplicate_stat_id_error_def duplicate_stat_message_def)
  have kind: "filter (duplicate_stat_id_error k)
      (case stat_type s of
          Numeric lo hi \<Rightarrow>
            (case (lo, hi) of
               (Some a, Some b) \<Rightarrow>
                 if a > b then [''stats['' @ string_of_nat idx @ ''] min > max''] else []
             | _ \<Rightarrow> [])
        | Enum (OptionList opts) \<Rightarrow>
            (if length opts > 25
             then [''stats['' @ string_of_nat idx @ ''] excede o limite de 25 op'' @ c_cedilla
                     @ o_tilde @ ''es ('' @ string_of_nat (length opts) @ '')'']
             else [])
            @ options_forEach idx opts 0 {}
        | Enum (OptionRef r) \<Rightarrow> []
        | Boolean \<Rightarrow> []
        | String \<Rightarrow> []
        | Calculated formula \<Rightarrow>
            (if formula = []
             then [''stats['' @ string_of_nat idx @ ''].formula'' @ obrigatorio]
             else [])
            @ (if formula \<noteq> [] \<and> hasCircularDependency (stat_id s) formula allStats
               then [''stats['' @ string_of_nat idx @ ''] tem depend'' @ e_circumflex
                       @ ''ncia circular na f'' @ o_acute @ ''rmula'']
               else [])
            @ concat (map (\<lambda>depId.
                 case find (\<lambda>s. stat_id s = depId) allStats of
                   None \<Rightarrow> [''stats['' @ string_of_nat idx @ ''].formula referencia stat inexistente: ''
                              @ string_of_int depId]
                 | Some depStat \<Rightarrow>
                     (case stat_type depStat of
                        String \<Rightarrow>
                          [''stats['' @ string_of_nat idx @ ''].formula referencia stat do tipo string: ''
                             @ string_of_int depId]
                      | _ \<Rightarrow> []))
               (findStatDependencies formula))) = []"
    by (simp add: deps options_forEach_no_duplicate_stat_id
        split: stat_type.splits enum_options.splits option.splits)
       (auto simp: duplicate_stat_id_error_def duplicate_stat_message_def)
  show ?thesis
    unfolding stat_errors_def filter_append kind name
    by (simp add: dup)
qed

lemma stats_forEach_append:
  "stats_forEach allStats (xs @ ys) idx ids =
     stats_forEach allStats xs idx ids
     @ stats_forEach allStats ys (idx + length xs) (ids \<union> stat_id ` set xs)"
  by (induction xs arbitrary: idx ids) simp_all

lemma stats_forEach_no_duplicate:
  "k \<notin> stat_id ` set xs \<Longrightarrow> filter (duplicate_stat_id_error k) (stats_forEach allStats xs idx ids) = []"
  by (induction xs arbitrary: idx ids) (simp_all add: stat_errors_duplicate)

lemma sections_forEach_no_duplicate_stat_id:
  "filter (duplicate_stat_id_error k) (sections_forEach secs i secIds) = []"
  by (induction secs arbitrary: i secIds) (auto simp: duplicate_stat_id_error_def duplicate_stat_message_def)

lemma config_errors_no_duplicate_stat_id:
  "filter (duplicate_stat_id_error k) (config_errors system) = []"
  by (simp add: config_errors_def Let_def duplicate_stat_id_error_def duplicate_stat_message_def)

text \<open>Two stats share the id 4, at the indices 0 and 1.\<close>

definition two_stats_with_id_4 :: RPGSystem where
  "two_stats_with_id_4 =
     \<lparr>config = Some \<lparr>config_id = Some 1, config_name = Some [''default'' \<mapsto> ''Meu Sistema'']\<rparr>,
      stats = Array [plain 4 Boolean, plain 4 Boolean],
      sections = Array []\<rparr>"

lemma string_of_nat_0: "string_of_nat 0 = ''0''" by (simp add: string_of_nat.simps digit_char_def)
lemma string_of_nat_1: "string_of_nat (Suc 0) = ''1''" by (simp add: string_of_nat.simps digit_char_def)
lemma string_of_int_4: "string_of_int 4 = ''4''"
  by (simp add: string_of_int_def string_of_nat.simps digit_char_def)

lemma validate_two_stats_with_id_4:
  "validate two_stats_with_id_4 = Inr [''stats[1] id duplicado: 4'']"
  by (simp add: validate_def two_stats_with_id_4_def config_errors_def is_array_def falsy_def
      default_of_def stat_errors_def plain_def duplicate_stat_message_def
      string_of_nat_1 string_of_int_4)

text \<open>
  Claim C5, as stated, fails: the one duplicate-id error names the index 1 and the id 4;
  the index 0 of the first of the two stats does not occur in it.
\<close>

theorem validate_duplicate_names_both_indices_counterexample:
  "validate two_stats_with_id_4 = Inr [''stats[1] id duplicado: 4'']
   \<and> CHR ''0'' \<notin> set ''stats[1] id duplicado: 4''"
  using validate_two_stats_with_id_4 by simp

text \<open>
  Claim C5, amended. When exactly two stats of a schema share an id \<open>k\<close>, the report of
  \<^verbatim>\<open>validate\<close> holds exactly one duplicate-id error for \<open>k\<close>, and it is the
  message \<^verbatim>\<open>stats[j] id duplicado: k\<close> for the index \<open>j\<close> of the later of the
  two stats.
\<close>

theorem validate_two_stats_share_id:
  assumes "stats system = Array (xs @ x # ys @ y # zs)"
    and "sections system = Array secs"
    and "stat_id x = k" and "stat_id y = k"
    and "k \<notin> stat_id ` set (xs @ ys @ zs)"
  shows "\<exists>errs. validate system = Inr errs
           \<and> filter (duplicate_stat_id_error k) errs
               = [duplicate_stat_message (Suc (length xs + length ys)) k]"
proof -
  let ?all = "xs @ x # ys @ y # zs"
  let ?P = "duplicate_stat_id_error k"
  have k: "k \<notin> stat_id ` set xs" "k \<notin> stat_id ` set ys" "k \<notin> stat_id ` set zs"
    using assms(5) by auto
  have tail: "filter ?P (stats_forEach ?all (y # zs) idx (insert k ids))
              = [duplicate_stat_message idx k]" for idx ids
    using assms(4) k(3) by (simp add: stat_errors_duplicate stats_forEach_no_duplicate)
  have mid: "filter ?P (stats_forEach ?all (ys @ y # zs) idx (insert k ids))
              = [duplicate_stat_message (idx + length ys) k]" for idx ids
    using tail [of "idx + length ys" "ids \<union> stat_id ` set ys"] k(2)
    by (simp add: stats_forEach_append stats_forEach_no_duplicate)
  have "filter ?P (stats_forEach ?all (x # ys @ y # zs) (length xs) (stat_id ` set xs))
          = [duplicate_stat_message (Suc (length xs) + length ys) k]"
    using assms(3) k(1) mid [of "Suc (length xs)" "stat_id ` set xs"]
    by (simp add: stat_errors_duplicate)
  then have "filter ?P (stats_forEach ?all ?all 0 {})
          = [duplicate_stat_message (Suc (length xs + length ys)) k]"
    using k(1) by (simp add: stats_forEach_append [of ?all xs] stats_forEach_no_duplicate)
  then show ?thesis
    using assms(1,2)
    by (simp add: validate_def config_errors_no_duplicate_stat_id
        sections_forEach_no_duplicate_stat_id)
qed

theorem validate_two_stats_share_id_witness:
  "\<exists>errs. validate two_stats_with_id_4 = Inr errs
      \<and> filter (duplicate_stat_id_error 4) errs = [''stats[1] id duplicado: 4'']"
  using validate_two_stats_share_id
    [of two_stats_with_id_4 "[]" "plain 4 Boolean" "[]" "plain 4 Boolean" "[]" "[]" 4]
  by (simp add: two_stats_with_id_4_def plain_def duplicate_stat_message_def
      string_of_nat_1 string_of_int_4)

subsection \<open>Totality\<close>

text \<open>
  Claim C2 is not met by the code: on a schema whose \<^verbatim>\<open>stats\<close> is not an array,
  \<^verbatim>\<open>validate\<close> pushes "stats deve ser um array" and then calls
  \<^verbatim>\<open>system.stats.forEach\<close>, which throws; no list of errors is returned. The
  same holds for \<^verbatim>\<open>sections\<close>.
\<close>

theorem validate_throws_without_stats_array:
  "validate (system\<lparr>stats := NotArray\<rparr>) = Inl TypeError
   \<and> validate (system\<lparr>sections := NotArray\<rparr>) = Inl TypeError"
  by (simp add: validate_def split: collection.splits)

text \<open>With both arrays in place every check is run and the whole report returned.\<close>

lemma validate_returns_on_arrays:
  "stats system = Array ss \<Longrightarrow> sections system = Array secs \<Longrightarrow>
     validate system = Inr (config_errors system @ stats_forEach ss ss 0 {} @ sections_forEach secs 0 {})"
  by (simp add: validate_def)

section \<open>Editing the formula of a calculated stat\<close>

text \<open>
  \<^verbatim>\<open>StatCalculatedEditor\<close> commits a change of the stat it edits by calling
  \<^verbatim>\<open>onChange\<close> with the new stat, which the main component stores at the index of
  the stat. A handler is modelled by the stat it commits, if any.
  \<^verbatim>\<open>patch({ formula })\<close> is \<^verbatim>\<open>onChange({ ...value, formula })\<close>.
\<close>

definition patch_formula :: "Stats \<Rightarrow> string \<Rightarrow> Stats" where
  "patch_formula stat formula = stat\<lparr>stat_type := Calculated formula\<rparr>"

text \<open>The handler of the math editor's confirm button.\<close>

definition confirmFormula :: "Stats \<Rightarrow> Stats list \<Rightarrow> string \<Rightarrow> Stats option" where
  "confirmFormula stat allStats formula =
     (if hasCircularDependency (stat_id stat) formula allStats then None
      else Some (patch_formula stat formula))"

text \<open>
  The handler of the formula text field:
  \<^verbatim>\<open>onChange={(e)=>patch({ formula:e.target.value })}\<close>.
\<close>

definition formula_input_onChange :: "Stats \<Rightarrow> string \<Rightarrow> Stats option" where
  "formula_input_onChange stat text = Some (patch_formula stat text)"

lemma confirmFormula_rejects_cycle:
  "hasCircularDependency (stat_id stat) formula allStats \<Longrightarrow> confirmFormula stat allStats formula = None"
  by (simp add: confirmFormula_def)

text \<open>
  Claim C3 is not met by the code. Stat 5 is calculated, with an empty formula; the text
  \<^verbatim>\<open><stat:5:value> + 1\<close> makes it read itself. The confirm handler of the math
  editor refuses it; the text field of the same editor commits it.
\<close>

theorem formula_input_commits_cycle:
  "hasCircularDependency 5 ''<stat:5:value> + 1'' [calc 5 '''']
   \<and> confirmFormula (calc 5 '''') [calc 5 ''''] ''<stat:5:value> + 1'' = None
   \<and> formula_input_onChange (calc 5 '''') ''<stat:5:value> + 1''
       = Some (calc 5 ''<stat:5:value> + 1'')"
proof -
  have "hasCircularDependency 5 ''<stat:5:value> + 1'' [calc 5 '''']" by code_simp
  then show ?thesis
    by (simp add: confirmFormula_def formula_input_onChange_def patch_formula_def calc_def)
qed

section \<open>The preview\<close>

subsection \<open>Replacing every match of a pattern\<close>

text \<open>
  \<^verbatim>\<open>text.replace(/pattern/g, callback)\<close>. A pattern is given by its matcher at
  the start of a text, which returns the captures and the text after the match. The matches
  are looked for from left to right in the original text; what the callback returns is not
  searched again. After an empty match the search moves on by one character, which is copied.
\<close>

function regex_replace :: "(string \<Rightarrow> ('c \<times> string) option) \<Rightarrow> ('c \<Rightarrow> string) \<Rightarrow> string \<Rightarrow> string" where
  "regex_replace m f s =
     (case m s of
        Some (c, rest) \<Rightarrow>
          if length rest < length s then f c @ regex_replace m f rest
          else (case s of [] \<Rightarrow> f c | x # xs \<Rightarrow> f c @ x # regex_replace m f xs)
      | None \<Rightarrow> (case s of [] \<Rightarrow> [] | x # xs \<Rightarrow> x # regex_replace m f xs))"
  by pat_completeness auto
termination
  by (relation "measure (\<lambda>(m, f, s). length s)") auto

declare regex_replace.simps [simp del]

text \<open>
  An alternation of literals, \<^verbatim>\<open>(stat|section)\<close> or
  \<^verbatim>\<open>(name|value|emoji)\<close>: the first alternative that the text starts with. No
  alternative of either group is a prefix of another, so at most one of them matches and
  there is nothing to go back to.
\<close>

fun match_alternatives :: "string list \<Rightarrow> string \<Rightarrow> (string \<times> string) option" where
  "match_alternatives [] s = None"
| "match_alternatives (a # as) s =
     (case match_literal a s of Some r \<Rightarrow> Some (a, r) | None \<Rightarrow> match_alternatives as s)"

text \<open>\<^verbatim>\<open>/<(stat|section):(\d+):(name|value|emoji)>/\<close>\<close>

definition match_variable :: "string \<Rightarrow> ((string \<times> string \<times> string) \<times> string) option" where
  "match_variable s =
     (case match_literal ''<'' s of None \<Rightarrow> None | Some r0 \<Rightarrow>
     (case match_alternatives [''stat'', ''section''] r0 of None \<Rightarrow> None | Some (type, r1) \<Rightarrow>
     (case match_literal '':'' r1 of None \<Rightarrow> None | Some r2 \<Rightarrow>
       (let idText = takeWhile is_digit r2; r3 = dropWhile is_digit r2 in
        if idText = [] then None else
     (case match_literal '':'' r3 of None \<Rightarrow> None | Some r4 \<Rightarrow>
     (case match_alternatives [''name'', ''value'', ''emoji''] r4 of None \<Rightarrow> None | Some (property, r5) \<Rightarrow>
     (case match_literal ''>'' r5 of None \<Rightarrow> None | Some r6 \<Rightarrow>
        Some ((type, idText, property), r6))))))))"

text \<open>
  \<^verbatim>\<open>/<math:([^>]+)>/\<close> and \<^verbatim>\<open>/<dice:([^>]+)>/\<close>, by their opening
  literal. \<^verbatim>\<open>[^>]+\<close> runs to the first \<^verbatim>\<open>>\<close>, which closes the token; if
  the text ends first there is no match.
\<close>

definition match_payload :: "string \<Rightarrow> string \<Rightarrow> (string \<times> string) option" where
  "match_payload opening s =
     (case match_literal opening s of None \<Rightarrow> None | Some r1 \<Rightarrow>
       (let expression = takeWhile (\<lambda>c. c \<noteq> CHR ''>'') r1;
            r2 = dropWhile (\<lambda>c. c \<noteq> CHR ''>'') r1 in
        if expression = [] then None else
     (case match_literal ''>'' r2 of None \<Rightarrow> None | Some r3 \<Rightarrow> Some (expression, r3))))"

text \<open>\<^verbatim>\<open>/\n/\<close>\<close>

definition match_newline :: "string \<Rightarrow> (unit \<times> string) option" where
  "match_newline s = (case match_literal [CHR 0x0A] s of None \<Rightarrow> None | Some r \<Rightarrow> Some ((), r))"

subsection \<open>Sample values\<close>

text \<open>
  \<^verbatim>\<open>a || b\<close> on a string that may be missing, \<^verbatim>\<open>x.name?.[locale]\<close>, and
  \<^verbatim>\<open>String(stat.min || d)\<close>: a minimum that is missing or zero is falsy.
\<close>

definition or_default :: "string option \<Rightarrow> string \<Rightarrow> string" where
  "or_default a d = (if falsy a then d else the a)"

definition localized :: "localization option \<Rightarrow> string \<Rightarrow> string option" where
  "localized n locale = (case n of None \<Rightarrow> None | Some l \<Rightarrow> l locale)"

definition min_or :: "int option \<Rightarrow> int \<Rightarrow> string" where
  "min_or lo d = string_of_int (case lo of None \<Rightarrow> d | Some m \<Rightarrow> if m = 0 then d else m)"

definition nao :: string where "nao = ''n'' @ a_tilde @ ''o''"
definition secao :: string where "secao = ''Se'' @ c_cedilla @ a_tilde @ ''o''"

text \<open>
  \<^verbatim>\<open>firstOption.name?.[locale] || firstOption.name?.default || 'Option 1'\<close>
\<close>

definition option_label :: "StatsEnumOption \<Rightarrow> string \<Rightarrow> string" where
  "option_label firstOption locale =
     or_default (localized (opt_name firstOption) locale)
       (or_default (default_of (opt_name firstOption)) ''Option 1'')"

definition resolveVariableValue ::
  "Stats list \<Rightarrow> Section list \<Rightarrow> string \<Rightarrow> string \<Rightarrow> string \<Rightarrow> string \<Rightarrow> string" where
  "resolveVariableValue stats_list sections_list locale type idText property =
     (if type = ''stat'' then
        (case find (\<lambda>s. stat_id s = parseInt idText) stats_list of
           None \<Rightarrow> ''[Stat '' @ idText @ '' '' @ nao @ '' encontrado]''
         | Some stat \<Rightarrow>
             if property = ''name'' then
               or_default (localized (stat_name stat) locale)
                 (or_default (default_of (stat_name stat)) (''Stat '' @ idText))
             else if property = ''emoji'' then or_default (stat_emoji stat) ''''
             else if property = ''value'' then
               (case stat_type stat of
                  Numeric lo hi \<Rightarrow> min_or lo 1
                | String \<Rightarrow> ''string''
                | Boolean \<Rightarrow> ''false''
                | Enum (OptionList (firstOption # opts)) \<Rightarrow> option_label firstOption locale
                | Enum (OptionList []) \<Rightarrow> ''enum''
                | Enum (OptionRef r) \<Rightarrow>
                    if r > 0 then
                      (case find (\<lambda>s. stat_id s = r) stats_list of
                         None \<Rightarrow> ''[ref: '' @ string_of_int r @ '']''
                       | Some referencedStat \<Rightarrow>
                           (case stat_type referencedStat of
                              Enum (OptionList (firstOption # opts)) \<Rightarrow> option_label firstOption locale
                            | _ \<Rightarrow> ''[ref: '' @ string_of_int r @ '']''))
                    else ''enum''
                | Calculated formula \<Rightarrow> ''[calculado]'')
             else ''[propriedade '' @ property @ '' desconhecida]'')
      else if type = ''section'' then
        (case find (\<lambda>s. sec_id s = parseInt idText) sections_list of
           None \<Rightarrow> ''['' @ secao @ '' '' @ idText @ '' '' @ nao @ '' encontrada]''
         | Some section \<Rightarrow>
             if property = ''name'' then
               or_default (localized (sec_name section) locale)
                 (or_default (default_of (sec_name section)) (secao @ '' '' @ idText))
             else if property = ''emoji'' then or_default (sec_emoji section) ''''
             else ''[propriedade '' @ property @ '' desconhecida]'')
      else ''[tipo '' @ type @ '' desconhecido]'')"

text \<open>
  The callbacks of the substitution inside \<^verbatim>\<open>evaluateMathExpression\<close> and
  \<^verbatim>\<open>evaluateDiceExpression\<close>, on the digits of a \<^verbatim>\<open><stat:ID:value>\<close>
  token. They differ in their constants only, which are the parameters here: the value for a
  missing stat (also for a calculated one and in the default branch), the default minimum,
  the value of a boolean and the value of an enum without options.
\<close>

definition first_option_value :: "Stats list \<Rightarrow> enum_options \<Rightarrow> string \<Rightarrow> string" where
  "first_option_value stats_list options d =
     (case options of
        OptionList (firstOption # opts) \<Rightarrow> string_of_int (opt_value firstOption)
      | OptionList [] \<Rightarrow> d
      | OptionRef r \<Rightarrow>
          if r > 0 then
            (case find (\<lambda>s. stat_id s = r) stats_list of
               None \<Rightarrow> d
             | Some referencedStat \<Rightarrow>
                 (case stat_type referencedStat of
                    Enum (OptionList (firstOption # opts)) \<Rightarrow> string_of_int (opt_value firstOption)
                  | _ \<Rightarrow> d))
          else d)"

definition numeric_sample :: "string \<Rightarrow> int \<Rightarrow> string \<Rightarrow> string \<Rightarrow> Stats list \<Rightarrow> string \<Rightarrow> string" where
  "numeric_sample missing default_min boolean_value empty_enum stats_list idText =
     (case find (\<lambda>s. stat_id s = parseInt idText) stats_list of
        None \<Rightarrow> missing
      | Some stat \<Rightarrow>
          (case stat_type stat of
             Numeric lo hi \<Rightarrow> min_or lo default_min
           | Boolean \<Rightarrow> boolean_value
           | Enum options \<Rightarrow> first_option_value stats_list options empty_enum
           | Calculated formula \<Rightarrow> missing
           | String \<Rightarrow> missing))"

text \<open>
  The two collaborators: the arithmetic evaluator followed by the conversion of its result
  to a string (\<open>None\<close> when either throws), and the dice roller, which returns its output
  or throws, an \<^verbatim>\<open>Error\<close> with a message or anything else.
\<close>

type_synonym evaluator = "string \<Rightarrow> string option"
type_synonym roller = "string \<Rightarrow> string option + string"

definition evaluateMathExpression :: "Stats list \<Rightarrow> evaluator \<Rightarrow> string \<Rightarrow> string" where
  "evaluateMathExpression stats_list evaluate expression =
     (let processedExpression =
            regex_replace match_stat_value (numeric_sample ''0'' 1 ''0'' ''1'' stats_list) expression
      in case evaluate processedExpression of
           Some result \<Rightarrow> result
         | None \<Rightarrow> ''[Erro: '' @ expression @ '']'')"

definition dice_emoji :: string where
  "dice_emoji = [CHR 0xF0, CHR 0x9F, CHR 0x8E, CHR 0xB2]"

definition evaluateDiceExpression :: "Stats list \<Rightarrow> roller \<Rightarrow> string \<Rightarrow> string" where
  "evaluateDiceExpression stats_list roll expression =
     (let processedExpression =
            regex_replace match_stat_value (numeric_sample ''3'' 3 ''1'' ''2'' stats_list) expression
      in case roll processedExpression of
           Inr output \<Rightarrow> dice_emoji @ '' '' @ output
         | Inl (Some message) \<Rightarrow> ''[Erro dados: '' @ message @ '']''
         | Inl None \<Rightarrow> ''[Erro dados: '' @ expression @ '']'')"

subsection \<open>The passes of \<^verbatim>\<open>SmartPreview\<close>\<close>

definition resolve_variables :: "Stats list \<Rightarrow> Section list \<Rightarrow> string \<Rightarrow> string \<Rightarrow> string" where
  "resolve_variables stats_list sections_list locale v =
     regex_replace match_variable
       (\<lambda>(type, idText, property). resolveVariableValue stats_list sections_list locale type idText property) v"

definition evaluate_math :: "Stats list \<Rightarrow> evaluator \<Rightarrow> string \<Rightarrow> string" where
  "evaluate_math stats_list evaluate v =
     regex_replace (match_payload ''<math:'') (evaluateMathExpression stats_list evaluate) v"

definition evaluate_dice :: "Stats list \<Rightarrow> roller \<Rightarrow> string \<Rightarrow> string" where
  "evaluate_dice stats_list roll v =
     regex_replace (match_payload ''<dice:'') (evaluateDiceExpression stats_list roll) v"

definition markdown_line_breaks :: "string \<Rightarrow> string" where
  "markdown_line_breaks v = regex_replace match_newline (\<lambda>_. [CHR '' '', CHR '' '', CHR 0x0A]) v"

text \<open>The text that \<^verbatim>\<open>SmartPreview\<close> hands to the Markdown renderer.\<close>

definition processedValue ::
  "Stats list \<Rightarrow> Section list \<Rightarrow> string \<Rightarrow> evaluator \<Rightarrow> roller \<Rightarrow> string \<Rightarrow> string" where
  "processedValue stats_list sections_list locale evaluate roll v =
     markdown_line_breaks
       (evaluate_dice stats_list roll
          (evaluate_math stats_list evaluate
             (resolve_variables stats_list sections_list locale v)))"

subsection \<open>Literal text around a token\<close>

text \<open>A pattern whose every match starts with \<^verbatim>\<open><\<close>.\<close>

definition opens_with_lt :: "(string \<Rightarrow> ('c \<times> string) option) \<Rightarrow> bool" where
  "opens_with_lt m = (m [] = None \<and> (\<forall>c cs. c \<noteq> CHR ''<'' \<longrightarrow> m (c # cs) = None))"

lemma opens_with_lt_other: "opens_with_lt m \<Longrightarrow> c \<noteq> CHR ''<'' \<Longrightarrow> m (c # cs) = None"
  unfolding opens_with_lt_def by blast

lemma opens_with_lt_Nil: "opens_with_lt m \<Longrightarrow> m [] = None"
  unfolding opens_with_lt_def by blast

lemma regex_replace_Nil: "m [] = None \<Longrightarrow> regex_replace m f [] = []"
  by (simp add: regex_replace.simps)

lemma regex_replace_skip: "m (x # xs) = None \<Longrightarrow> regex_replace m f (x # xs) = x # regex_replace m f xs"
  by (simp add: regex_replace.simps [of m f "x # xs"])

lemma regex_replace_match:
  "m s = Some (c, rest) \<Longrightarrow> length rest < length s \<Longrightarrow>
     regex_replace m f s = f c @ regex_replace m f rest"
  by (simp add: regex_replace.simps [of m f s])

lemma regex_replace_literal_prefix:
  "opens_with_lt m \<Longrightarrow> CHR ''<'' \<notin> set pre \<Longrightarrow>
     regex_replace m f (pre @ s) = pre @ regex_replace m f s"
proof (induction pre)
  case Nil
  show ?case by simp
next
  case (Cons x pre)
  from Cons.prems have "m (x # pre @ s) = None" by (auto intro: opens_with_lt_other)
  then have "regex_replace m f (x # pre @ s) = x # regex_replace m f (pre @ s)"
    by (rule regex_replace_skip)
  with Cons show ?case by simp
qed

lemma regex_replace_literal:
  "opens_with_lt m \<Longrightarrow> CHR ''<'' \<notin> set s \<Longrightarrow> regex_replace m f s = s"
  using regex_replace_literal_prefix [of m s f "[]"]
  by (simp add: regex_replace_Nil opens_with_lt_Nil)

lemma opens_with_lt_variable: "opens_with_lt match_variable"
  by (simp add: opens_with_lt_def match_variable_def)


lemma opens_with_lt_dice: "opens_with_lt (match_payload ''<dice:'')"
  by (simp add: opens_with_lt_def match_payload_def)

lemma match_literal_prefix [simp]: "match_literal p (p @ r) = Some r"
  by (induction p) simp_all

lemma not_digit_colon: "\<not> is_digit CHR '':''"
  by (simp add: is_digit_def)

lemma digits_then_colon:
  "list_all is_digit ds \<Longrightarrow> takeWhile is_digit (ds @ CHR '':'' # r) = ds"
  "list_all is_digit ds \<Longrightarrow> dropWhile is_digit (ds @ CHR '':'' # r) = CHR '':'' # r"
  using not_digit_colon by (simp_all add: list_all_iff takeWhile_append2 dropWhile_append2)

lemma match_variable_token:
  assumes "idText \<noteq> []" and "list_all is_digit idText"
    and "type = ''stat'' \<or> type = ''section''"
    and "property = ''name'' \<or> property = ''value'' \<or> property = ''emoji''"
  shows "match_variable (''<'' @ type @ '':'' @ idText @ '':'' @ property @ ''>'' @ r)
           = Some ((type, idText, property), r)"
proof -
  have ty: "match_alternatives [''stat'', ''section''] (type @ '':'' @ idText @ '':'' @ property @ ''>'' @ r)
            = Some (type, '':'' @ idText @ '':'' @ property @ ''>'' @ r)"
    using assms(3) by auto
  have pr: "match_alternatives [''name'', ''value'', ''emoji''] (property @ ''>'' @ r)
            = Some (property, ''>'' @ r)"
    using assms(4) by auto
  show ?thesis
    using assms(1) ty pr digits_then_colon [OF assms(2), of "property @ ''>'' @ r"]
    by (simp add: match_variable_def Let_def)
qed

lemma match_newline_Cons:
  "match_newline (x # r) = (if x = CHR 0x0A then Some ((), r) else None)"
  by (simp add: match_newline_def)

lemma line_breaks_Cons:
  "regex_replace match_newline f (x # r) =
     (if x = CHR 0x0A then f () @ regex_replace match_newline f r
      else x # regex_replace match_newline f r)"
proof (cases "x = CHR 0x0A")
  case True
  then have "match_newline (x # r) = Some ((), r)" by (simp add: match_newline_Cons)
  from regex_replace_match [of match_newline "x # r" "()" r f, OF this] True show ?thesis by simp
next
  case False
  then have "match_newline (x # r) = None" by (simp add: match_newline_Cons)
  from regex_replace_skip [of match_newline x r f, OF this] False show ?thesis by simp
qed

lemma line_breaks_Nil: "regex_replace match_newline f [] = []"
  by (rule regex_replace_Nil) (simp add: match_newline_def)


lemma markdown_line_breaks_none:
  "CHR 0x0A \<notin> set s \<Longrightarrow> markdown_line_breaks s = s"
  unfolding markdown_line_breaks_def
  by (induction s) (auto simp: line_breaks_Nil line_breaks_Cons)



subsection \<open>Text before a token\<close>

text \<open>
  A match of the variable pattern cannot run into a \<^verbatim>\<open><\<close> that follows: the
  pattern holds \<^verbatim>\<open><\<close> at its first place only. So the matcher sees the same in a
  text as in that text followed by \<^verbatim>\<open><\<close> and anything.
\<close>

lemma match_literal_before_lt:
  "CHR ''<'' \<notin> set p \<Longrightarrow>
     match_literal p (b @ CHR ''<'' # t) = map_option (\<lambda>r. r @ CHR ''<'' # t) (match_literal p b)"
  by (induction p b rule: match_literal.induct) auto

lemma match_alternatives_before_lt:
  "(\<And>a. a \<in> set alts \<Longrightarrow> CHR ''<'' \<notin> set a) \<Longrightarrow>
     match_alternatives alts (b @ CHR ''<'' # t)
       = map_option (\<lambda>(a, r). (a, r @ CHR ''<'' # t)) (match_alternatives alts b)"
proof (induction alts)
  case Nil
  show ?case by simp
next
  case (Cons a alts)
  then show ?case
    by (cases "match_literal a b") (simp_all add: match_literal_before_lt)
qed

lemma digits_before_lt:
  "takeWhile is_digit (b @ CHR ''<'' # t) = takeWhile is_digit b"
  "dropWhile is_digit (b @ CHR ''<'' # t) = dropWhile is_digit b @ CHR ''<'' # t"
  using not_digit_lt by (induction b) simp_all

text \<open>The variable pattern after its opening \<^verbatim>\<open><\<close>, stage by stage.\<close>

lemma match_variable_lt:
  "match_variable (CHR ''<'' # s) =
     (case match_alternatives [''stat'', ''section''] s of None \<Rightarrow> None | Some (type, r1) \<Rightarrow>
     (case match_literal '':'' r1 of None \<Rightarrow> None | Some r2 \<Rightarrow>
       (if takeWhile is_digit r2 = [] then None else
     (case match_literal '':'' (dropWhile is_digit r2) of None \<Rightarrow> None | Some r4 \<Rightarrow>
     (case match_alternatives [''name'', ''value'', ''emoji''] r4 of None \<Rightarrow> None | Some (property, r5) \<Rightarrow>
     (case match_literal ''>'' r5 of None \<Rightarrow> None | Some r6 \<Rightarrow>
        Some ((type, takeWhile is_digit r2, property), r6)))))))"
  unfolding match_variable_def Let_def by simp

lemma match_variable_before_lt:
  "match_variable ((c # b) @ CHR ''<'' # t)
     = map_option (\<lambda>(x, r). (x, r @ CHR ''<'' # t)) (match_variable (c # b))"
proof (cases "c = CHR ''<''")
  case False
  then show ?thesis by (simp add: match_variable_def)
next
  case c: True
  let ?L = "CHR ''<'' # t"
  have alts1: "match_alternatives [''stat'', ''section''] (r @ ?L)
       = map_option (\<lambda>(a, r). (a, r @ ?L)) (match_alternatives [''stat'', ''section''] r)" for r
    by (rule match_alternatives_before_lt) auto
  have alts2: "match_alternatives [''name'', ''value'', ''emoji''] (r @ ?L)
       = map_option (\<lambda>(a, r). (a, r @ ?L)) (match_alternatives [''name'', ''value'', ''emoji''] r)" for r
    by (rule match_alternatives_before_lt) auto
  have colon: "match_literal '':'' (r @ ?L) = map_option (\<lambda>r. r @ ?L) (match_literal '':'' r)" for r
    by (rule match_literal_before_lt) simp
  have gt: "match_literal ''>'' (r @ ?L) = map_option (\<lambda>r. r @ ?L) (match_literal ''>'' r)" for r
    by (rule match_literal_before_lt) simp
  have goal: "match_variable (CHR ''<'' # b @ ?L)
     = map_option (\<lambda>(x, r). (x, r @ ?L)) (match_variable (CHR ''<'' # b))"
  proof (cases "match_alternatives [''stat'', ''section''] b")
    case None
    then show ?thesis by (simp only: match_variable_lt alts1 option.map option.case)
  next
    case s1: (Some p1)
    obtain ty r1 where p1: "p1 = (ty, r1)" by (cases p1)
    note s1 = s1 [unfolded p1]
    show ?thesis
    proof (cases "match_literal '':'' r1")
      case None
      then show ?thesis
        by (simp only: match_variable_lt alts1 s1 colon option.map option.case prod.case)
    next
      case s2: (Some r2)
      show ?thesis
      proof (cases "takeWhile is_digit r2 = []")
        case True
        then show ?thesis
          by (simp only: match_variable_lt alts1 s1 colon s2 digits_before_lt
                option.map option.case prod.case if_True if_False simp_thms)
      next
        case d: False
        show ?thesis
        proof (cases "match_literal '':'' (dropWhile is_digit r2)")
          case None
          then show ?thesis
            by (simp only: match_variable_lt alts1 s1 colon s2 digits_before_lt d
                  option.map option.case prod.case if_True if_False simp_thms)
        next
          case s4: (Some r4)
          show ?thesis
          proof (cases "match_alternatives [''name'', ''value'', ''emoji''] r4")
            case None
            then show ?thesis
              by (simp only: match_variable_lt alts1 s1 colon s2 digits_before_lt d s4 alts2
                    option.map option.case prod.case if_True if_False simp_thms)
          next
            case s5: (Some p5)
            obtain pr r5 where p5: "p5 = (pr, r5)" by (cases p5)
            note s5 = s5 [unfolded p5]
            show ?thesis
            proof (cases "match_literal ''>'' r5")
              case None
              then show ?thesis
                by (simp only: match_variable_lt alts1 s1 colon s2 digits_before_lt d s4 alts2 s5 gt
                      option.map option.case prod.case if_True if_False simp_thms)
            next
              case (Some r6)
              then show ?thesis
                by (simp only: match_variable_lt alts1 s1 colon s2 digits_before_lt d s4 alts2 s5 gt
                      option.map option.case prod.case if_True if_False simp_thms)
            qed
          qed
        qed
      qed
    qed
  qed
  then show ?thesis using c by simp
qed

lemma regex_replace_before_lt:
  assumes nil: "m [] = None"
    and ext: "\<And>c b t. m ((c # b) @ CHR ''<'' # t) = map_option (\<lambda>(x, r). (x, r @ CHR ''<'' # t)) (m (c # b))"
  shows "regex_replace m f (b @ CHR ''<'' # t) = regex_replace m f b @ regex_replace m f (CHR ''<'' # t)"
proof (induction "length b" arbitrary: b rule: less_induct)
  case less
  show ?case
  proof (cases b)
    case Nil
    then show ?thesis by (simp add: regex_replace_Nil nil)
  next
    case (Cons c b')
    show ?thesis
    proof (cases "m (c # b')")
      case None
      with ext [of c b' t] have "m ((c # b') @ CHR ''<'' # t) = None" by simp
      then have "regex_replace m f ((c # b') @ CHR ''<'' # t) = c # regex_replace m f (b' @ CHR ''<'' # t)"
        using regex_replace_skip [of m c "b' @ CHR ''<'' # t" f] by simp
      moreover have "regex_replace m f (c # b') = c # regex_replace m f b'"
        using None by (rule regex_replace_skip)
      moreover have "regex_replace m f (b' @ CHR ''<'' # t) = regex_replace m f b' @ regex_replace m f (CHR ''<'' # t)"
        using less [of b'] Cons by simp
      ultimately show ?thesis using Cons by simp
    next
      case (Some p)
      obtain x r where p: "p = (x, r)" by (cases p)
      from Some p ext [of c b' t] have m2: "m ((c # b') @ CHR ''<'' # t) = Some (x, r @ CHR ''<'' # t)" by simp
      from Some p have m1: "m (c # b') = Some (x, r)" by simp
      show ?thesis
      proof (cases "length r < length (c # b')")
        case True
        then have "regex_replace m f (c # b') = f x @ regex_replace m f r"
          using regex_replace_match [of m "c # b'" x r f] m1 by simp
        moreover have "regex_replace m f ((c # b') @ CHR ''<'' # t) = f x @ regex_replace m f (r @ CHR ''<'' # t)"
          using regex_replace_match [of m "(c # b') @ CHR ''<'' # t" x "r @ CHR ''<'' # t" f] m2 True by simp
        moreover have "regex_replace m f (r @ CHR ''<'' # t) = regex_replace m f r @ regex_replace m f (CHR ''<'' # t)"
          using less [of r] True Cons by simp
        ultimately show ?thesis using Cons by simp
      next
        case False
        then have "regex_replace m f (c # b') = f x @ c # regex_replace m f b'"
          using m1 by (simp add: regex_replace.simps [of m f "c # b'"])
        moreover have "regex_replace m f (c # b' @ CHR ''<'' # t) = f x @ c # regex_replace m f (b' @ CHR ''<'' # t)"
          using m2 False by (simp add: regex_replace.simps [of m f "c # b' @ CHR ''<'' # t"])
        moreover have "regex_replace m f (b' @ CHR ''<'' # t) = regex_replace m f b' @ regex_replace m f (CHR ''<'' # t)"
          using less [of b'] Cons by simp
        ultimately show ?thesis using Cons by simp
      qed
    qed
  qed
qed

text \<open>
  The first pass on a text with a token in it: the text before the token, the token and the
  text after it are resolved each on its own, whatever they are.
\<close>

lemma resolve_variables_at_token:
  assumes "idText \<noteq> []" and "list_all is_digit idText"
    and "type = ''stat'' \<or> type = ''section''"
    and "property = ''name'' \<or> property = ''value'' \<or> property = ''emoji''"
  shows "resolve_variables stats_list sections_list loc
           (before @ ''<'' @ type @ '':'' @ idText @ '':'' @ property @ ''>'' @ after)
         = resolve_variables stats_list sections_list loc before
           @ resolveVariableValue stats_list sections_list loc type idText property
           @ resolve_variables stats_list sections_list loc after"
proof -
  let ?f = "\<lambda>(type, idText, property). resolveVariableValue stats_list sections_list loc type idText property"
  let ?rest = "type @ '':'' @ idText @ '':'' @ property @ ''>'' @ after"
  have tok: "regex_replace match_variable ?f (CHR ''<'' # ?rest)
               = ?f (type, idText, property) @ regex_replace match_variable ?f after"
    using regex_replace_match [of match_variable "CHR ''<'' # ?rest" "(type, idText, property)" after ?f]
      match_variable_token [OF assms(1-4), of after]
    by simp
  have "regex_replace match_variable ?f (before @ CHR ''<'' # ?rest)
          = regex_replace match_variable ?f before @ regex_replace match_variable ?f (CHR ''<'' # ?rest)"
  proof (rule regex_replace_before_lt)
    show "match_variable [] = None" by (simp add: match_variable_def)
    show "match_variable ((c # b) @ CHR ''<'' # t)
            = map_option (\<lambda>(x, r). (x, r @ CHR ''<'' # t)) (match_variable (c # b))" for c b t
      by (rule match_variable_before_lt)
  qed
  with tok show ?thesis
    by (simp add: resolve_variables_def)
qed











subsection \<open>References that do not resolve\<close>





lemma parseInt_1: "parseInt ''1'' = 1" by (simp add: parseInt_def digit_val_def)
lemma is_digit_simps: "is_digit CHR ''9''" "is_digit CHR ''1''" "\<not> is_digit CHR '':''"
  by (simp_all add: is_digit_def)

definition never_rolls :: roller where "never_rolls e = Inl None"






subsection \<open>The sample value of a numeric stat\<close>

lemma string_of_int_small:
  "string_of_int 0 = ''0''" "string_of_int 1 = ''1''" "string_of_int 3 = ''3''"
  by (simp_all add: string_of_int_def string_of_nat.simps digit_char_def)

text \<open>A numeric stat as \<^verbatim>\<open>addStat\<close> creates it: minimum 0, maximum 10.\<close>

definition strength_min_0 :: Stats where
  "strength_min_0 = plain 1 (Numeric (Some 0) (Some 10))"

text \<open>
  Claim C4, as stated, fails: for a numeric stat with the declared minimum 0 the token
  resolves to \<^verbatim>\<open>1\<close>, not to \<^verbatim>\<open>0\<close>.
\<close>

theorem numeric_minimum_zero_counterexample:
  "resolveVariableValue [strength_min_0] [] ''default'' ''stat'' ''1'' ''value'' = ''1''
   \<and> string_of_int 0 = ''0''"
  by (simp add: resolveVariableValue_def strength_min_0_def plain_def parseInt_1 min_or_def
      string_of_int_small)

lemma min_or_nonzero: "m \<noteq> 0 \<Longrightarrow> min_or (Some m) d = string_of_int m"
  by (simp add: min_or_def)

lemma resolve_math_min_3:
  assumes "find (\<lambda>s. stat_id s = 1) stats_list = Some stat"
    and "stat_type stat = Numeric (Some 3) hi"
  shows "resolve_variables stats_list sections_list loc ''<math:<stat:1:value> + 2>'' = ''<math:3 + 2>''"
  using assms
  by (simp add: resolve_variables_def regex_replace.simps match_variable_def
      Let_def is_digit_def resolveVariableValue_def parseInt_1 min_or_def string_of_int_small)

lemma evaluate_math_3_plus_2:
  "evaluate_math stats_list evaluate ''<math:3 + 2>''
     = (case evaluate ''3 + 2'' of Some result \<Rightarrow> result | None \<Rightarrow> ''[Erro: 3 + 2]'')"
  by (simp add: evaluate_math_def regex_replace.simps match_payload_def Let_def
      evaluateMathExpression_def match_stat_value_def split: option.splits)

text \<open>
  Claim C4, amended. For a numeric stat with a declared minimum \<open>m\<close> other than zero, a
  \<^verbatim>\<open><stat:ID:value>\<close> token for that stat resolves to \<open>m\<close>, and the first pass of
  the preview writes \<open>m\<close> in the place of the token whatever text stands around it. With a
  minimum of 3, \<^verbatim>\<open><math:<stat:1:value> + 2>\<close> reaches the math pass as
  \<^verbatim>\<open><math:3 + 2>\<close>, the evaluator is called with \<^verbatim>\<open>3 + 2\<close>, and the
  preview is what the evaluator returns for it.
\<close>

theorem numeric_sample_is_nonzero_minimum:
  "(idText \<noteq> [] \<and> list_all is_digit idText
      \<and> find (\<lambda>s. stat_id s = parseInt idText) stats_list = Some stat
      \<and> stat_type stat = Numeric (Some m) hi \<and> m \<noteq> 0 \<longrightarrow>
        resolveVariableValue stats_list sections_list loc ''stat'' idText ''value'' = string_of_int m
        \<and> resolve_variables stats_list sections_list loc
              (before @ ''<stat:'' @ idText @ '':value>'' @ after)
          = resolve_variables stats_list sections_list loc before
            @ string_of_int m
            @ resolve_variables stats_list sections_list loc after)
   \<and> (find (\<lambda>s. stat_id s = 1) stats_list = Some stat
      \<and> stat_type stat = Numeric (Some 3) hi \<longrightarrow>
        resolve_variables stats_list sections_list loc ''<math:<stat:1:value> + 2>'' = ''<math:3 + 2>''
        \<and> evaluate_math stats_list evaluate
              (resolve_variables stats_list sections_list loc ''<math:<stat:1:value> + 2>'')
          = (case evaluate ''3 + 2'' of Some result \<Rightarrow> result | None \<Rightarrow> ''[Erro: 3 + 2]''))
   \<and> (find (\<lambda>s. stat_id s = 1) stats_list = Some stat
      \<and> stat_type stat = Numeric (Some 3) hi
      \<and> evaluate ''3 + 2'' = Some result
      \<and> CHR ''<'' \<notin> set result \<and> CHR 0x0A \<notin> set result \<longrightarrow>
        processedValue stats_list sections_list loc evaluate roll ''<math:<stat:1:value> + 2>''
          = result)"
proof (intro conjI impI)
  assume a: "idText \<noteq> [] \<and> list_all is_digit idText
      \<and> find (\<lambda>s. stat_id s = parseInt idText) stats_list = Some stat
      \<and> stat_type stat = Numeric (Some m) hi \<and> m \<noteq> 0"
  then have ne: "idText \<noteq> []" and dg: "list_all is_digit idText" by simp_all
  have pr: "''value'' = ''name'' \<or> ''value'' = ''value'' \<or> ''value'' = ''emoji''" by simp
  from a show r: "resolveVariableValue stats_list sections_list loc ''stat'' idText ''value'' = string_of_int m"
    by (simp add: resolveVariableValue_def min_or_nonzero)
  have "resolve_variables stats_list sections_list loc
          (before @ ''<'' @ ''stat'' @ '':'' @ idText @ '':'' @ ''value'' @ ''>'' @ after)
        = resolve_variables stats_list sections_list loc before
          @ resolveVariableValue stats_list sections_list loc ''stat'' idText ''value''
          @ resolve_variables stats_list sections_list loc after"
    by (rule resolve_variables_at_token [OF ne dg _ pr]) simp
  then show "resolve_variables stats_list sections_list loc
              (before @ ''<stat:'' @ idText @ '':value>'' @ after)
          = resolve_variables stats_list sections_list loc before
            @ string_of_int m
            @ resolve_variables stats_list sections_list loc after"
    by (simp add: r)
next
  assume a: "find (\<lambda>s. stat_id s = 1) stats_list = Some stat
      \<and> stat_type stat = Numeric (Some 3) hi"
  then have f: "find (\<lambda>s. stat_id s = 1) stats_list = Some stat"
    and t: "stat_type stat = Numeric (Some 3) hi" by simp_all
  show "resolve_variables stats_list sections_list loc ''<math:<stat:1:value> + 2>'' = ''<math:3 + 2>''"
    by (rule resolve_math_min_3 [OF f t])
  show "evaluate_math stats_list evaluate
              (resolve_variables stats_list sections_list loc ''<math:<stat:1:value> + 2>'')
          = (case evaluate ''3 + 2'' of Some result \<Rightarrow> result | None \<Rightarrow> ''[Erro: 3 + 2]'')"
    by (simp only: resolve_math_min_3 [OF f t] evaluate_math_3_plus_2)
next
  assume a: "find (\<lambda>s. stat_id s = 1) stats_list = Some stat
      \<and> stat_type stat = Numeric (Some 3) hi
      \<and> evaluate ''3 + 2'' = Some result
      \<and> CHR ''<'' \<notin> set result \<and> CHR 0x0A \<notin> set result"
  then have f: "find (\<lambda>s. stat_id s = 1) stats_list = Some stat"
    and t: "stat_type stat = Numeric (Some 3) hi" by simp_all
  have "evaluate_math stats_list evaluate
              (resolve_variables stats_list sections_list loc ''<math:<stat:1:value> + 2>'') = result"
    using a by (simp only: resolve_math_min_3 [OF f t] evaluate_math_3_plus_2) simp
  then have "processedValue stats_list sections_list loc evaluate roll ''<math:<stat:1:value> + 2>''
          = markdown_line_breaks (evaluate_dice stats_list roll result)"
    by (simp add: processedValue_def)
  also have "evaluate_dice stats_list roll result = result"
    using a by (simp add: evaluate_dice_def regex_replace_literal opens_with_lt_dice)
  also have "markdown_line_breaks result = result"
    using a by (simp add: markdown_line_breaks_none)
  finally show "processedValue stats_list sections_list loc evaluate roll ''<math:<stat:1:value> + 2>''
          = result" .
qed

text \<open>A numeric stat with minimum 3, and an evaluator that knows one sum.\<close>

definition strength_min_3 :: Stats where
  "strength_min_3 = plain 1 (Numeric (Some 3) (Some 10))"

definition adds_3_and_2 :: evaluator where
  "adds_3_and_2 e = (if e = ''3 + 2'' then Some ''5'' else None)"

theorem numeric_sample_is_nonzero_minimum_witness:
  "resolveVariableValue [strength_min_3] [] ''default'' ''stat'' ''1'' ''value'' = ''3''
   \<and> resolve_variables [strength_min_3] [] ''default'' ''<dice:<stat:1:value>d6>'' = ''<dice:3d6>''
   \<and> processedValue [strength_min_3] [] ''default'' adds_3_and_2 never_rolls ''<math:<stat:1:value> + 2>'' = ''5''"
proof -
  have r: "resolve_variables [strength_min_3] [] ''default'' ''<dice:'' = ''<dice:''"
    "resolve_variables [strength_min_3] [] ''default'' ''d6>'' = ''d6>''"
    by (simp_all add: resolve_variables_def regex_replace.simps match_variable_def)
  note three = numeric_sample_is_nonzero_minimum
    [where idText = "''1''" and stats_list = "[strength_min_3]" and stat = strength_min_3
       and m = 3 and hi = "Some 10" and sections_list = "[]" and loc = "''default''"
       and before = "''<dice:''" and after = "''d6>''"
       and evaluate = adds_3_and_2 and result = "''5''" and roll = never_rolls]
  from three show ?thesis
    by (simp add: parseInt_1 is_digit_simps r adds_3_and_2_def string_of_int_small)
       (simp add: strength_min_3_def plain_def)
qed

subsection \<open>Tokens inside math and dice payloads\<close>

lemma no_gt_no_stat_value:
  "CHR ''>'' \<notin> set e \<Longrightarrow> regex_replace match_stat_value f e = e"
proof (induction e)
  case Nil
  show ?case by (simp add: regex_replace_Nil)
next
  case (Cons x e)
  have "match_stat_value (x # e) = None"
  proof (cases "match_stat_value (x # e)")
    case (Some p)
    obtain ds r where "p = (ds, r)" by (cases p)
    with Some have "match_stat_value (x # e) = Some (ds, r)" by simp
    then have "x # e = ''<stat:'' @ ds @ '':value>'' @ r"
      by (rule match_stat_value_shape(1))
    then have "CHR ''>'' \<in> set (x # e)" by simp
    with Cons.prems show ?thesis by simp
  qed
  from regex_replace_skip [of match_stat_value x e f, OF this] Cons show ?case by simp
qed

lemma match_payload_no_gt:
  "match_payload opening v = Some (expression, rest) \<Longrightarrow> CHR ''>'' \<notin> set expression"
  by (auto simp: match_payload_def Let_def split: option.splits if_splits dest: set_takeWhileD)

text \<open>
  What the math and dice passes hand to their collaborators: the payload as the pattern
  captured it. The payload holds no \<^verbatim>\<open>>\<close>, so the substitution of
  \<^verbatim>\<open><stat:ID:value>\<close> inside the two functions finds nothing to replace.
\<close>

lemma payload_reaches_collaborator_unchanged:
  assumes "match_payload opening v = Some (expression, rest)"
  shows "evaluateMathExpression stats_list evaluate expression
           = (case evaluate expression of Some result \<Rightarrow> result
              | None \<Rightarrow> ''[Erro: '' @ expression @ '']'')"
    and "evaluateDiceExpression stats_list roll expression
           = (case roll expression of
                Inr output \<Rightarrow> dice_emoji @ '' '' @ output
              | Inl (Some message) \<Rightarrow> ''[Erro dados: '' @ message @ '']''
              | Inl None \<Rightarrow> ''[Erro dados: '' @ expression @ '']'')"
  using no_gt_no_stat_value [OF match_payload_no_gt [OF assms]]
  by (simp_all add: evaluateMathExpression_def evaluateDiceExpression_def)

lemma resolve_nested_missing_math:
  "resolve_variables [] [] loc ''<math:<stat:99:value> + 2>''
     = ''<math:[Stat 99 '' @ nao @ '' encontrado] + 2>''"
  by (simp add: resolve_variables_def regex_replace.simps match_variable_def Let_def is_digit_def
      resolveVariableValue_def nao_def a_tilde_def)

lemma resolve_nested_missing_dice:
  "resolve_variables [] [] loc ''<dice:<stat:99:value>d6>''
     = ''<dice:[Stat 99 '' @ nao @ '' encontrado]d6>''"
  by (simp add: resolve_variables_def regex_replace.simps match_variable_def Let_def is_digit_def
      resolveVariableValue_def nao_def a_tilde_def)

text \<open>
  Claim C10 is not met by the code. In \<^verbatim>\<open><math:<stat:99:value> + 2>\<close> and
  \<^verbatim>\<open><dice:<stat:99:value>d6>\<close>, with no stat 99 in the schema, the first pass
  of the preview has already replaced the inner token by the bracketed diagnostic when the
  math and dice passes run: the evaluator and the roller receive the diagnostic text, not
  \<^verbatim>\<open>0 + 2\<close> and \<^verbatim>\<open>3d6\<close>.
\<close>

theorem nested_missing_stat_reaches_collaborator:
  "evaluate_math [] evaluate (resolve_variables [] [] loc ''<math:<stat:99:value> + 2>'')
     = (case evaluate (''[Stat 99 '' @ nao @ '' encontrado] + 2'') of
          Some result \<Rightarrow> result
        | None \<Rightarrow> ''[Erro: [Stat 99 '' @ nao @ '' encontrado] + 2]'')
   \<and> evaluate_dice [] roll
        (evaluate_math [] evaluate (resolve_variables [] [] loc ''<dice:<stat:99:value>d6>''))
     = (case roll (''[Stat 99 '' @ nao @ '' encontrado]d6'') of
          Inr output \<Rightarrow> dice_emoji @ '' '' @ output
        | Inl (Some message) \<Rightarrow> ''[Erro dados: '' @ message @ '']''
        | Inl None \<Rightarrow> ''[Erro dados: [Stat 99 '' @ nao @ '' encontrado]d6]'')"
proof
  let ?diag = "''[Stat 99 '' @ nao @ '' encontrado] + 2''"
  have m: "match_payload ''<math:'' (''<math:'' @ ?diag @ ''>'') = Some (?diag, [])"
    by (simp add: match_payload_def Let_def nao_def a_tilde_def)
  have "regex_replace (match_payload ''<math:'') (evaluateMathExpression [] evaluate)
          (''<math:'' @ ?diag @ ''>'')
        = evaluateMathExpression [] evaluate ?diag
          @ regex_replace (match_payload ''<math:'') (evaluateMathExpression [] evaluate) []"
    by (rule regex_replace_match, rule m, simp)
  also have "regex_replace (match_payload ''<math:'') (evaluateMathExpression [] evaluate) [] = []"
    by (rule regex_replace_Nil) (simp add: match_payload_def)
  finally have "evaluate_math [] evaluate (''<math:'' @ ?diag @ ''>'')
        = evaluateMathExpression [] evaluate ?diag"
    by (simp add: evaluate_math_def)
  moreover have "resolve_variables [] [] loc ''<math:<stat:99:value> + 2>'' = ''<math:'' @ ?diag @ ''>''"
    by (simp add: resolve_nested_missing_math)
  ultimately have "evaluate_math [] evaluate (resolve_variables [] [] loc ''<math:<stat:99:value> + 2>'')
        = evaluateMathExpression [] evaluate ?diag"
    by (simp only:)
  also note payload_reaches_collaborator_unchanged(1) [OF m, of "[]" evaluate]
  finally show "evaluate_math [] evaluate (resolve_variables [] [] loc ''<math:<stat:99:value> + 2>'')
     = (case evaluate (''[Stat 99 '' @ nao @ '' encontrado] + 2'') of
          Some result \<Rightarrow> result
        | None \<Rightarrow> ''[Erro: [Stat 99 '' @ nao @ '' encontrado] + 2]'')"
    by (simp split: option.splits)
next
  let ?diag = "''[Stat 99 '' @ nao @ '' encontrado]d6''"
  have d: "match_payload ''<dice:'' (''<dice:'' @ ?diag @ ''>'') = Some (?diag, [])"
    by (simp add: match_payload_def Let_def nao_def a_tilde_def)
  have "regex_replace (match_payload ''<dice:'') (evaluateDiceExpression [] roll)
          (''<dice:'' @ ?diag @ ''>'')
        = evaluateDiceExpression [] roll ?diag
          @ regex_replace (match_payload ''<dice:'') (evaluateDiceExpression [] roll) []"
    by (rule regex_replace_match, rule d, simp)
  also have "regex_replace (match_payload ''<dice:'') (evaluateDiceExpression [] roll) [] = []"
    by (rule regex_replace_Nil) (simp add: match_payload_def)
  finally have dice: "evaluate_dice [] roll (''<dice:'' @ ?diag @ ''>'')
        = evaluateDiceExpression [] roll ?diag"
    by (simp add: evaluate_dice_def)
  have nomath: "evaluate_math [] evaluate (''<dice:'' @ ?diag @ ''>'') = ''<dice:'' @ ?diag @ ''>''"
    by (simp add: evaluate_math_def regex_replace.simps match_payload_def Let_def nao_def a_tilde_def)
  have res: "resolve_variables [] [] loc ''<dice:<stat:99:value>d6>'' = ''<dice:'' @ ?diag @ ''>''"
    by (simp add: resolve_nested_missing_dice)
  have "evaluate_dice [] roll
        (evaluate_math [] evaluate (resolve_variables [] [] loc ''<dice:<stat:99:value>d6>''))
        = evaluateDiceExpression [] roll ?diag"
    by (simp only: res nomath dice)
  also note payload_reaches_collaborator_unchanged(2) [OF d, of "[]" roll]
  finally show "evaluate_dice [] roll
        (evaluate_math [] evaluate (resolve_variables [] [] loc ''<dice:<stat:99:value>d6>''))
     = (case roll (''[Stat 99 '' @ nao @ '' encontrado]d6'') of
          Inr output \<Rightarrow> dice_emoji @ '' '' @ output
        | Inl (Some message) \<Rightarrow> ''[Erro dados: '' @ message @ '']''
        | Inl None \<Rightarrow> ''[Erro dados: [Stat 99 '' @ nao @ '' encontrado]d6]'')"
    by (simp split: sum.splits option.splits)
qed

section \<open>The replacement editor\<close>

record DiceCondition =
  value1 :: string
  operator :: string
  value2 :: string

record Dice =
  dice_expression :: string
  dice_condition :: "DiceCondition option"

text \<open>
  \<^verbatim>\<open>getStatsUsedInDices\<close>. The ids are collected in a \<^verbatim>\<open>Set\<close>, which keeps
  each element once in the order of insertion, and \<^verbatim>\<open>Array.from\<close> lists it in that
  order: adding the matches of a text is \<^const>\<open>push_new\<close>.
\<close>

definition add_stat_ids :: "int list \<Rightarrow> string \<Rightarrow> int list" where
  "add_stat_ids usedStatIds text = push_new usedStatIds (map parseInt (stat_value_matches text))"

fun dices_forEach :: "Dice list \<Rightarrow> int list \<Rightarrow> int list" where
  "dices_forEach [] usedStatIds = usedStatIds"
| "dices_forEach (dice # rest) usedStatIds =
     (let used1 = (if dice_expression dice \<noteq> [] then add_stat_ids usedStatIds (dice_expression dice)
                   else usedStatIds);
          used2 = (case dice_condition dice of
                     None \<Rightarrow> used1
                   | Some c \<Rightarrow> add_stat_ids (add_stat_ids used1 (value1 c)) (value2 c))
      in dices_forEach rest used2)"

definition getStatsUsedInDices :: "Dice list \<Rightarrow> int list" where
  "getStatsUsedInDices dices = dices_forEach dices []"

text \<open>The test on the type that both filters share.\<close>

definition replaceable :: "Stats \<Rightarrow> bool" where
  "replaceable stat =
     (case stat_type stat of
        Numeric lo hi \<Rightarrow> True
      | Boolean \<Rightarrow> True
      | Enum options \<Rightarrow> True
      | Calculated formula \<Rightarrow> True
      | String \<Rightarrow> False)"

definition validKeyStats :: "Stats list \<Rightarrow> Dice list \<Rightarrow> Stats list" where
  "validKeyStats stats_list dices =
     filter (\<lambda>stat. stat_id stat \<in> set (getStatsUsedInDices dices) \<and> replaceable stat) stats_list"

definition validOptionStats :: "Stats list \<Rightarrow> Stats list" where
  "validOptionStats stats_list = filter replaceable stats_list"

subsection \<open>What a dice list references\<close>

text \<open>
  The texts of a dice entry, and a text holding a \<^verbatim>\<open><stat:ID:value>\<close> token for
  an id.
\<close>

definition dice_texts :: "Dice \<Rightarrow> string list" where
  "dice_texts dice =
     dice_expression dice # (case dice_condition dice of None \<Rightarrow> [] | Some c \<Rightarrow> [value1 c, value2 c])"

definition references :: "string \<Rightarrow> int \<Rightarrow> bool" where
  "references text i =
     (\<exists>pre ds post. text = pre @ ''<stat:'' @ ds @ '':value>'' @ post
        \<and> ds \<noteq> [] \<and> list_all is_digit ds \<and> parseInt ds = i)"

definition referenced_in_dices :: "Dice list \<Rightarrow> int \<Rightarrow> bool" where
  "referenced_in_dices dices i = (\<exists>dice\<in>set dices. \<exists>text\<in>set (dice_texts dice). references text i)"

lemma set_push_new: "set (push_new deps xs) = set deps \<union> set xs"
  by (auto simp: push_new_keep_first set_keep_first)

lemma set_add_stat_ids: "set (add_stat_ids used text) = set used \<union> {i. references text i}"
proof -
  have "parseInt ` set (all_token_starts text) = {i. references text i}"
    using in_all_token_starts [of _ "text"] unfolding references_def by blast
  then show ?thesis
    by (simp add: add_stat_ids_def set_push_new stat_value_matches_all)
qed

lemma references_Nil: "\<not> references [] i"
  by (simp add: references_def)

lemma set_dices_forEach:
  "set (dices_forEach dices used) = set used \<union> {i. referenced_in_dices dices i}"
proof (induction dices arbitrary: used)
  case Nil
  show ?case by (simp add: referenced_in_dices_def)
next
  case (Cons dice rest)
  have here: "set (case dice_condition dice of
                     None \<Rightarrow> (if dice_expression dice \<noteq> [] then add_stat_ids used (dice_expression dice) else used)
                   | Some c \<Rightarrow> add_stat_ids (add_stat_ids
                        (if dice_expression dice \<noteq> [] then add_stat_ids used (dice_expression dice) else used)
                        (value1 c)) (value2 c))
              = set used \<union> {i. \<exists>text\<in>set (dice_texts dice). references text i}"
    by (auto simp: set_add_stat_ids dice_texts_def references_Nil split: option.splits)
  have "{i. referenced_in_dices (dice # rest) i}
          = {i. \<exists>text\<in>set (dice_texts dice). references text i} \<union> {i. referenced_in_dices rest i}"
    by (auto simp: referenced_in_dices_def)
  with Cons.IH here show ?case by (simp add: Let_def Un_assoc)
qed

lemma set_getStatsUsedInDices:
  "set (getStatsUsedInDices dices) = {i. referenced_in_dices dices i}"
  by (simp add: getStatsUsedInDices_def set_dices_forEach)

lemma replaceable_iff: "replaceable stat \<longleftrightarrow> stat_type stat \<noteq> String"
  by (simp add: replaceable_def split: stat_type.splits)

text \<open>
  Claim C8. For the dice list of a stat, the stats offered as replacement keys are exactly
  the stats of the schema whose id is referenced by a \<^verbatim>\<open><stat:ID:value>\<close> token in
  a dice expression or in a value of a condition, and whose type is numeric, boolean, enum or
  calculated (in the order of the schema); no stat of type string is among the keys or among
  the options offered.
\<close>

theorem replacement_keys_and_options:
  "validKeyStats stats_list dices
     = filter (\<lambda>stat. referenced_in_dices dices (stat_id stat) \<and> replaceable stat) stats_list
   \<and> (replaceable stat \<longleftrightarrow> stat_type stat \<noteq> String)
   \<and> filter (\<lambda>stat. stat_type stat = String) (validKeyStats stats_list dices) = []
   \<and> filter (\<lambda>stat. stat_type stat = String) (validOptionStats stats_list) = []
   \<and> set (validOptionStats stats_list) = {stat \<in> set stats_list. stat_type stat \<noteq> String}"
  by (auto simp: validKeyStats_def validOptionStats_def set_getStatsUsedInDices replaceable_iff
      filter_empty_conv)

text \<open>
  A dice list that reads the stats 1, 2 and 4, in a schema where stat 3 is not read and stat 4
  is a string.
\<close>

definition attack_dices :: "Dice list" where
  "attack_dices =
     [\<lparr>dice_expression = ''1d20 + <stat:1:value>'',
       dice_condition = Some \<lparr>value1 = ''<stat:2:value>'', operator = ''>'', value2 = ''<stat:4:value>''\<rparr>\<rparr>,
      \<lparr>dice_expression = ''1d20 + <stat:1:value>'', dice_condition = None\<rparr>]"

definition attack_stats :: "Stats list" where
  "attack_stats = [plain 1 (Numeric (Some 0) (Some 10)), plain 2 Boolean, plain 3 Boolean, plain 4 String]"

lemma attack_used: "getStatsUsedInDices attack_dices = [1, 2, 4]"
  by code_simp

theorem replacement_keys_and_options_witness:
  "validKeyStats attack_stats attack_dices
     = [plain 1 (Numeric (Some 0) (Some 10)), plain 2 Boolean]
   \<and> filter (\<lambda>stat. referenced_in_dices attack_dices (stat_id stat) \<and> replaceable stat) attack_stats
     = [plain 1 (Numeric (Some 0) (Some 10)), plain 2 Boolean]"
proof -
  have "validKeyStats attack_stats attack_dices = [plain 1 (Numeric (Some 0) (Some 10)), plain 2 Boolean]"
    by (simp add: validKeyStats_def attack_used attack_stats_def replaceable_def plain_def)
  with replacement_keys_and_options [of attack_stats attack_dices] show ?thesis by simp
qed

end
